theory Spec2Isabelle
  imports Main "HOL-Library.Product_Lexorder"
begin

section \<open>The datetime library used by the application\<close>

text \<open>
  The application computes with naive \<^verbatim>\<open>datetime\<close> values of the Python standard
  library. A value carries the fields year, month, day, hour, minute, second and
  microsecond; two values are equal when all fields are equal. Date arithmetic goes
  through the proleptic Gregorian ordinal (day 1 is 0001-01-01), converted by
  \<^verbatim>\<open>_ymd2ord\<close> and \<^verbatim>\<open>_ord2ymd\<close>; a result outside the ordinals
  \<open>1 .. MAXORDINAL\<close> raises \<^verbatim>\<open>OverflowError\<close>. The definitions below follow the
  library's reference implementation.
\<close>

datatype error = OverflowError | ValueError | IllegalMonthError

record datetime =
  year :: int
  month :: int
  day :: int
  hour :: int
  minute :: int
  second :: int
  microsecond :: int

definition MINYEAR :: int where "MINYEAR = 1"
definition MAXYEAR :: int where "MAXYEAR = 9999"
definition MAXORDINAL :: int where "MAXORDINAL = 3652059"

definition is_leap :: "int \<Rightarrow> bool" where
  "is_leap y = (y mod 4 = 0 \<and> (y mod 100 \<noteq> 0 \<or> y mod 400 = 0))"

definition days_before_year :: "int \<Rightarrow> int" where
  "days_before_year y = (let y1 = y - 1 in y1 * 365 + y1 div 4 - y1 div 100 + y1 div 400)"

definition DAYS_IN_MONTH :: "int list" where
  "DAYS_IN_MONTH = [-1, 31, 28, 31, 30, 31, 30, 31, 31, 30, 31, 30, 31]"

definition DAYS_BEFORE_MONTH :: "int list" where
  "DAYS_BEFORE_MONTH = [-1, 0, 31, 59, 90, 120, 151, 181, 212, 243, 273, 304, 334]"

definition days_in_month :: "int \<Rightarrow> int \<Rightarrow> int" where
  "days_in_month y m = (if m = 2 \<and> is_leap y then 29 else DAYS_IN_MONTH ! nat m)"

definition days_before_month :: "int \<Rightarrow> int \<Rightarrow> int" where
  "days_before_month y m = DAYS_BEFORE_MONTH ! nat m + (if m > 2 \<and> is_leap y then 1 else 0)"

definition ymd2ord :: "int \<Rightarrow> int \<Rightarrow> int \<Rightarrow> int" where
  "ymd2ord y m d = days_before_year y + days_before_month y m + d"

definition DI400Y :: int where "DI400Y = 146097"
definition DI100Y :: int where "DI100Y = 36524"
definition DI4Y :: int where "DI4Y = 1461"

definition ord2ymd :: "int \<Rightarrow> int \<times> int \<times> int" where
  "ord2ymd n0 =
    (let n = n0 - 1;
         n400 = n div DI400Y; n = n mod DI400Y;
         y = n400 * 400 + 1;
         n100 = n div DI100Y; n = n mod DI100Y;
         n4 = n div DI4Y; n = n mod DI4Y;
         n1 = n div 365; n = n mod 365;
         y = y + n100 * 100 + n4 * 4 + n1
     in if n1 = 4 \<or> n100 = 4 then (y - 1, 12, 31)
        else
          let leapyear = (n1 = 3 \<and> (n4 \<noteq> 24 \<or> n100 = 3));
              m = (n + 50) div 32;
              preceding = DAYS_BEFORE_MONTH ! nat m + (if m > 2 \<and> leapyear then 1 else 0)
          in if preceding > n
             then let m = m - 1;
                      preceding = preceding - (DAYS_IN_MONTH ! nat m + (if m = 2 \<and> leapyear then 1 else 0))
                  in (y, m, n - preceding + 1)
             else (y, m, n - preceding + 1))"



text \<open>A well-formed date, as the library checks it when it builds a value.\<close>

definition valid_date :: "int \<Rightarrow> int \<Rightarrow> int \<Rightarrow> bool" where
  "valid_date y m d =
     (MINYEAR \<le> y \<and> y \<le> MAXYEAR \<and> 1 \<le> m \<and> m \<le> 12 \<and> 1 \<le> d \<and> d \<le> days_in_month y m)"

definition valid_datetime :: "datetime \<Rightarrow> bool" where
  "valid_datetime dt =
     (valid_date (year dt) (month dt) (day dt)
      \<and> 0 \<le> hour dt \<and> hour dt < 24 \<and> 0 \<le> minute dt \<and> minute dt < 60
      \<and> 0 \<le> second dt \<and> second dt < 60 \<and> 0 \<le> microsecond dt \<and> microsecond dt < 1000000)"

text \<open>
  The constructor \<^verbatim>\<open>datetime(year, month, day)\<close>. The library's C implementation first
  converts the three arguments to C integers, which raises \<^verbatim>\<open>OverflowError\<close> for a
  number outside the 32-bit range; a date that is not well-formed then raises
  \<^verbatim>\<open>ValueError\<close>.
\<close>

definition fits_c_int :: "int \<Rightarrow> bool" where
  "fits_c_int n = (- 2147483648 \<le> n \<and> n \<le> 2147483647)"

definition datetime_ymd :: "int \<Rightarrow> int \<Rightarrow> int \<Rightarrow> error + datetime" where
  "datetime_ymd y m d =
     (if \<not> (fits_c_int y \<and> fits_c_int m \<and> fits_c_int d) then Inl OverflowError
      else if valid_date y m d
      then Inr \<lparr>year = y, month = m, day = d, hour = 0, minute = 0, second = 0, microsecond = 0\<rparr>
      else Inl ValueError)"

definition toordinal :: "datetime \<Rightarrow> int" where
  "toordinal dt = ymd2ord (year dt) (month dt) (day dt)"

text \<open>\<^verbatim>\<open>weekday()\<close>: 0 is Monday, 6 is Sunday.\<close>

definition weekday :: "datetime \<Rightarrow> int" where
  "weekday dt = (toordinal dt + 6) mod 7"

text \<open>
  \<^verbatim>\<open>dt + timedelta(days=n)\<close> and \<^verbatim>\<open>dt - timedelta(days=n)\<close>. A whole number of days
  leaves the time of day as it is; the subtraction is the addition of the negated
  difference.
\<close>

definition add_days :: "datetime \<Rightarrow> int \<Rightarrow> error + datetime" where
  "add_days dt n =
     (let ord = toordinal dt + n
      in if 0 < ord \<and> ord \<le> MAXORDINAL
         then (case ord2ymd ord of (y, m, d) \<Rightarrow> Inr (dt\<lparr>year := y, month := m, day := d\<rparr>))
         else Inl OverflowError)"

definition sub_days :: "datetime \<Rightarrow> int \<Rightarrow> error + datetime" where
  "sub_days dt n = add_days dt (- n)"

text \<open>\<^verbatim>\<open>dt.replace(hour=0, minute=0, second=0, microsecond=0)\<close>.\<close>

definition normalise :: "datetime \<Rightarrow> datetime" where
  "normalise dt = dt\<lparr>hour := 0, minute := 0, second := 0, microsecond := 0\<rparr>"

subsection \<open>Exceptions as values\<close>

definition bindE :: "error + 'a \<Rightarrow> ('a \<Rightarrow> error + 'b) \<Rightarrow> error + 'b" where
  "bindE x f = (case x of Inl e \<Rightarrow> Inl e | Inr v \<Rightarrow> f v)"

text \<open>A list comprehension whose element expression may raise: the first failure wins.\<close>

fun mapE :: "('a \<Rightarrow> error + 'b) \<Rightarrow> 'a list \<Rightarrow> error + 'b list" where
  "mapE f [] = Inr []"
| "mapE f (x # xs) = bindE (f x) (\<lambda>y. bindE (mapE f xs) (\<lambda>ys. Inr (y # ys)))"

text \<open>\<^verbatim>\<open>range(n)\<close>\<close>

definition range_upto :: "int \<Rightarrow> int list" where
  "range_upto n = [0..n - 1]"

subsection \<open>The calendar module\<close>

text \<open>
  \<^verbatim>\<open>calendar.monthcalendar(year, month)\<close> with the default first weekday (Monday):
  the day numbers of the month in rows of seven, padded with zeros.
\<close>

definition mdays :: "int list" where
  "mdays = [0, 31, 28, 31, 30, 31, 30, 31, 31, 30, 31, 30, 31]"

definition isleap :: "int \<Rightarrow> bool" where
  "isleap y = (y mod 4 = 0 \<and> (y mod 100 \<noteq> 0 \<or> y mod 400 = 0))"

definition calendar_weekday :: "int \<Rightarrow> int \<Rightarrow> int \<Rightarrow> error + int" where
  "calendar_weekday y m d =
     (let y = (if \<not> (MINYEAR \<le> y \<and> y \<le> MAXYEAR) then 2000 + y mod 400 else y)
      in bindE (datetime_ymd y m d) (\<lambda>dt. Inr (weekday dt)))"

definition monthrange :: "int \<Rightarrow> int \<Rightarrow> error + (int \<times> int)" where
  "monthrange y m =
     (if \<not> (1 \<le> m \<and> m \<le> 12) then Inl IllegalMonthError
      else bindE (calendar_weekday y m 1) (\<lambda>day1.
           let ndays = mdays ! nat m + (if m = 2 \<and> isleap y then 1 else 0)
           in Inr (day1, ndays)))"

definition itermonthdays :: "int \<Rightarrow> int \<Rightarrow> error + int list" where
  "itermonthdays y m =
     bindE (monthrange y m) (\<lambda>(day1, ndays).
       let days_before = (day1 - 0) mod 7;
           days_after = (0 - day1 - ndays) mod 7
       in Inr (replicate (nat days_before) 0 @ [1..ndays] @ replicate (nat days_after) 0))"

fun chunks7 :: "'a list \<Rightarrow> 'a list list" where
  "chunks7 [] = []"
| "chunks7 (x # xs) = take 7 (x # xs) # chunks7 (drop 7 (x # xs))"

definition monthcalendar :: "int \<Rightarrow> int \<Rightarrow> error + int list list" where
  "monthcalendar y m = bindE (itermonthdays y m) (\<lambda>days. Inr (chunks7 days))"

section \<open>The application: src/app.py\<close>

subsection \<open>Protocol 1 (single exposure)\<close>

definition PROTOCOL1_BOUT_START_DAYS_OUT :: int where
  "PROTOCOL1_BOUT_START_DAYS_OUT = 19"

definition PROTOCOL1_BOUT_DAYS :: int where
  "PROTOCOL1_BOUT_DAYS = 10"

definition PROTOCOL1_MAINTENANCE_DAYS :: "int list" where
  "PROTOCOL1_MAINTENANCE_DAYS = [7, 5]"

definition protocol1_sessions :: "datetime \<Rightarrow> error + (datetime list \<times> datetime list)" where
  "protocol1_sessions race_date =
     bindE (sub_days race_date PROTOCOL1_BOUT_START_DAYS_OUT) (\<lambda>first_day.
     bindE (mapE (\<lambda>i. add_days first_day i) (range_upto PROTOCOL1_BOUT_DAYS)) (\<lambda>bout.
     bindE (mapE (\<lambda>d. sub_days race_date d) PROTOCOL1_MAINTENANCE_DAYS) (\<lambda>maintenance.
     Inr (bout, maintenance))))"

subsection \<open>Protocol 2 (repeated exposure)\<close>

definition bout1_offsets :: "int list" where
  "bout1_offsets = [0, 1, 3, 4, 5, 7, 8, 10, 11, 12, 13]"

definition bout2_week1_offsets :: "int list" where
  "bout2_week1_offsets = [12, 11, 9, 8, 7, 6]"

text \<open>The assignments of the function up to \<^verbatim>\<open>block_start\<close>, the anchor of bout 1.\<close>

definition weekday_offset :: "datetime \<Rightarrow> int" where
  "weekday_offset race_date = weekday (normalise race_date) - 5"

definition monday_6w :: "datetime \<Rightarrow> error + datetime" where
  "monday_6w race_date =
     (let race_norm = normalise race_date
      in bindE (sub_days race_norm 42) (\<lambda>a.
         bindE (sub_days race_norm 42) (\<lambda>b.
         sub_days a (weekday b))))"

definition block_start :: "datetime \<Rightarrow> error + datetime" where
  "block_start race_date =
     bindE (monday_6w race_date) (\<lambda>monday. add_days monday (weekday_offset race_date))"

text \<open>One pass of the maintenance loop, up to \<^verbatim>\<open>block_start_m\<close>, and the loop itself.\<close>

definition monday_of_week :: "datetime \<Rightarrow> int \<Rightarrow> error + datetime" where
  "monday_of_week race_norm weeks_out =
     bindE (sub_days race_norm (weeks_out * 7)) (\<lambda>week_center.
     sub_days week_center (weekday week_center))"

definition block_start_m :: "datetime \<Rightarrow> int \<Rightarrow> int \<Rightarrow> error + datetime" where
  "block_start_m race_norm offset weeks_out =
     bindE (monday_of_week race_norm weeks_out) (\<lambda>monday. add_days monday offset)"

fun maintenance_loop :: "datetime \<Rightarrow> int \<Rightarrow> int list \<Rightarrow> datetime list \<Rightarrow> error + datetime list" where
  "maintenance_loop race_norm offset [] maintenance = Inr maintenance"
| "maintenance_loop race_norm offset (weeks_out # rest) maintenance =
     bindE (block_start_m race_norm offset weeks_out) (\<lambda>bs.
     bindE (add_days bs 2) (\<lambda>s1.
     bindE (add_days bs 5) (\<lambda>s2.
     maintenance_loop race_norm offset rest (maintenance @ [s1] @ [s2]))))"

definition protocol2_sessions ::
  "datetime \<Rightarrow> error + (datetime list \<times> datetime list \<times> datetime list)" where
  "protocol2_sessions race_date =
     (let race_norm = normalise race_date;
          offset = weekday_offset race_date
      in bindE (block_start race_date) (\<lambda>block_start.
         bindE (mapE (\<lambda>i. add_days block_start i) bout1_offsets) (\<lambda>bout1.
         bindE (maintenance_loop race_norm offset [4, 3, 2] []) (\<lambda>maintenance.
         bindE (mapE (\<lambda>d. sub_days race_norm d) bout2_week1_offsets) (\<lambda>bout2_week1.
         bindE (mapE (\<lambda>d. sub_days race_norm d) [5, 4, 2]) (\<lambda>bout2_week2.
         let bout2 = bout2_week1 @ bout2_week2
         in Inr (bout1, maintenance, bout2)))))))"

subsection \<open>Normalised date sets\<close>

definition sessions_to_set :: "datetime list \<Rightarrow> datetime set" where
  "sessions_to_set sessions = normalise ` set sessions"

subsection \<open>Calendar grids\<close>

text \<open>
  A cell is the pair \<^verbatim>\<open>(day_num, type)\<close>; \<^verbatim>\<open>None\<close> is \<open>None\<close>, the type is the
  string the source writes.
\<close>

type_synonym cell = "int option \<times> string option"

definition race_matches :: "datetime option \<Rightarrow> datetime \<Rightarrow> bool" where
  "race_matches race_norm d_norm = (case race_norm of None \<Rightarrow> False | Some r \<Rightarrow> d_norm = r)"

definition cell_type1 :: "datetime set \<Rightarrow> datetime set \<Rightarrow> datetime option \<Rightarrow> datetime \<Rightarrow> string option" where
  "cell_type1 bout_set maint_set race_norm d_norm =
     (if race_matches race_norm d_norm then Some ''race''
      else if d_norm \<in> bout_set then Some ''bout''
      else if d_norm \<in> maint_set then Some ''maintenance''
      else None)"

definition cell_type2 ::
  "datetime set \<Rightarrow> datetime set \<Rightarrow> datetime set \<Rightarrow> datetime option \<Rightarrow> datetime \<Rightarrow> string option" where
  "cell_type2 bout1_set maint_set bout2_set race_norm d_norm =
     (if race_matches race_norm d_norm then Some ''race''
      else if d_norm \<in> bout1_set then Some ''bout1''
      else if d_norm \<in> maint_set then Some ''maintenance''
      else if d_norm \<in> bout2_set then Some ''bout2''
      else None)"

text \<open>
  The two nested loops. The inner loop appends one cell per day of the week, the outer
  one appends the finished row; \<open>ct\<close> is the chain of tests that sets \<^verbatim>\<open>cell_type\<close>.
\<close>

fun week_loop :: "(datetime \<Rightarrow> string option) \<Rightarrow> int \<Rightarrow> int \<Rightarrow> int list \<Rightarrow> cell list \<Rightarrow> error + cell list" where
  "week_loop ct y m [] row = Inr row"
| "week_loop ct y m (dayn # week) row =
     (if dayn = 0 then week_loop ct y m week (row @ [(None, None)])
      else bindE (datetime_ymd y m dayn) (\<lambda>d.
           let d_norm = normalise d
           in week_loop ct y m week (row @ [(Some dayn, ct d_norm)])))"

fun weeks_loop ::
  "(datetime \<Rightarrow> string option) \<Rightarrow> int \<Rightarrow> int \<Rightarrow> int list list \<Rightarrow> cell list list \<Rightarrow> error + cell list list" where
  "weeks_loop ct y m [] result = Inr result"
| "weeks_loop ct y m (week # weeks) result =
     bindE (week_loop ct y m week []) (\<lambda>row. weeks_loop ct y m weeks (result @ [row]))"

definition month_calendar_data_protocol1 ::
  "int \<Rightarrow> int \<Rightarrow> datetime set \<Rightarrow> datetime set \<Rightarrow> datetime option \<Rightarrow> error + cell list list" where
  "month_calendar_data_protocol1 y m bout_set maint_set race_date =
     bindE (monthcalendar y m) (\<lambda>weeks.
       let race_norm = map_option normalise race_date
       in weeks_loop (cell_type1 bout_set maint_set race_norm) y m weeks [])"

definition month_calendar_data_protocol2 ::
  "int \<Rightarrow> int \<Rightarrow> datetime set \<Rightarrow> datetime set \<Rightarrow> datetime set \<Rightarrow> datetime option
     \<Rightarrow> error + cell list list" where
  "month_calendar_data_protocol2 y m bout1_set maint_set bout2_set race_date =
     bindE (monthcalendar y m) (\<lambda>weeks.
       let race_norm = map_option normalise race_date
       in weeks_loop (cell_type2 bout1_set maint_set bout2_set race_norm) y m weeks [])"

subsection \<open>Months to display\<close>


subsection \<open>The request handler, after the race date is parsed\<close>


section \<open>Auxiliary definitions for the proofs\<close>

text \<open>The datetime at midnight of a day, for writing concrete dates.\<close>

definition ymd :: "int \<Rightarrow> int \<Rightarrow> int \<Rightarrow> datetime" where
  "ymd y m d = \<lparr>year = y, month = m, day = d, hour = 0, minute = 0, second = 0, microsecond = 0\<rparr>"

text \<open>The race date of the specification's example, a Saturday.\<close>

definition sample_race :: datetime where
  "sample_race = ymd 2024 8 10"


text \<open>The search for the month at the end of \<open>ord2ymd\<close>, on its own.\<close>

definition month_day :: "int \<Rightarrow> bool \<Rightarrow> int \<Rightarrow> int \<times> int \<times> int" where
  "month_day y leapyear n =
     (let m = (n + 50) div 32;
          preceding = DAYS_BEFORE_MONTH ! nat m + (if m > 2 \<and> leapyear then 1 else 0)
      in if preceding > n
         then let m = m - 1;
                  preceding = preceding - (DAYS_IN_MONTH ! nat m + (if m = 2 \<and> leapyear then 1 else 0))
              in (y, m, n - preceding + 1)
         else (y, m, n - preceding + 1))"

text \<open>
  The datetime \<open>n\<close> days after \<open>dt\<close> (before it, for a negative \<open>n\<close>), with the time of
  day of \<open>dt\<close>: the value of \<^verbatim>\<open>dt + timedelta(days=n)\<close> where that is in range.
\<close>

definition days_from :: "datetime \<Rightarrow> int \<Rightarrow> datetime" where
  "days_from dt n =
     (case ord2ymd (toordinal dt + n) of (y, m, d) \<Rightarrow> dt\<lparr>year := y, month := m, day := d\<rparr>)"

definition days_before :: "datetime \<Rightarrow> int \<Rightarrow> datetime" where
  "days_before dt n = days_from dt (- n)"

text \<open>
  The calendar week of a date, named by the ordinal of its Monday: the source's
  \<^verbatim>\<open>d - timedelta(days=d.weekday())\<close>.
\<close>

definition calendar_week :: "datetime \<Rightarrow> int" where
  "calendar_week d = toordinal d - weekday d"

text \<open>Race dates on other weekdays: a Thursday and a Monday.\<close>

definition thursday_race :: datetime where
  "thursday_race = ymd 2024 8 8"

definition monday_race :: datetime where
  "monday_race = ymd 2024 8 12"

text \<open>
  The schedule of Protocol 2 worded as fixed day counts before the race date, to compare
  with the construction from the Monday of a week and the weekday offset.
\<close>

definition protocol2_fixed_offsets ::
  "datetime \<Rightarrow> error + (datetime list \<times> datetime list \<times> datetime list)" where
  "protocol2_fixed_offsets race_date =
     (let race_norm = normalise race_date
      in bindE (mapE (\<lambda>d. sub_days race_norm d) [47, 46, 44, 43, 42, 40, 39, 37, 36, 35, 34]) (\<lambda>bout1.
         bindE (mapE (\<lambda>d. sub_days race_norm d) [31, 28, 24, 21, 17, 14]) (\<lambda>maintenance.
         bindE (mapE (\<lambda>d. sub_days race_norm d) [12, 11, 9, 8, 7, 6, 5, 4, 2]) (\<lambda>bout2.
         Inr (bout1, maintenance, bout2)))))"

text \<open>The cell the grid builders append for one entry of a week of \<open>monthcalendar\<close>.\<close>

definition grid_cell :: "(datetime \<Rightarrow> string option) \<Rightarrow> int \<Rightarrow> int \<Rightarrow> int \<Rightarrow> cell" where
  "grid_cell ct y m dayn = (if dayn = 0 then (None, None) else (Some dayn, ct (ymd y m dayn)))"



section \<open>Correctness of the ordinal conversion\<close>

lemma ord2ymd_unfold:
  "ord2ymd n =
    (let a = (n - 1) div 146097; r1 = (n - 1) mod 146097;
         b = r1 div 36524; r2 = r1 mod 36524;
         c = r2 div 1461; r3 = r2 mod 1461;
         e = r3 div 365; r4 = r3 mod 365;
         y = a * 400 + 1 + b * 100 + c * 4 + e
     in if e = 4 \<or> b = 4 then (y - 1, 12, 31)
        else month_day y (e = 3 \<and> (c \<noteq> 24 \<or> b = 3)) r4)"
  unfolding ord2ymd_def month_day_def Let_def DI400Y_def DI100Y_def DI4Y_def
  by (rule refl)


lemma int_1_12: "1 \<le> (k::int) \<Longrightarrow> k \<le> 12 \<Longrightarrow> k \<in> {1,2,3,4,5,6,7,8,9,10,11,12}"
  by (simp, arith)

lemma month_day_ok:
  assumes "0 \<le> n" "n < 365" "month_day y leap n = (y', m, d)"
  shows "y' = y \<and> 1 \<le> m \<and> m \<le> 12 \<and> 1 \<le> d
       \<and> d \<le> (if m = 2 \<and> leap then 29 else DAYS_IN_MONTH ! nat m)
       \<and> DAYS_BEFORE_MONTH ! nat m + (if m > 2 \<and> leap then 1 else 0) + d = n + 1"
proof -
  define k where "k = (n + 50) div 32"
  have kb: "32 * k \<le> n + 50" "n + 50 < 32 * k + 32" unfolding k_def by presburger+
  have "1 \<le> k" "k \<le> 12" using kb assms(1,2) by linarith+
  then have kc: "k \<in> {1,2,3,4,5,6,7,8,9,10,11,12::int}" by (rule int_1_12)
  show ?thesis
    using kc kb assms unfolding month_day_def k_def[symmetric] Let_def
    by (elim insertE emptyE; simp add: DAYS_BEFORE_MONTH_def DAYS_IN_MONTH_def split: if_splits; linarith?)
qed

lemma dby_decomp:
  assumes "0 \<le> b" "b \<le> 3" "0 \<le> c" "c \<le> 24" "0 \<le> e" "e \<le> 3"
  shows "days_before_year (400 * a + 100 * b + 4 * c + e + 1)
         = 146097 * a + 36524 * b + 1461 * c + 365 * e"
proof -
  define y1 where "y1 = 400 * a + 100 * b + 4 * c + e"
  have d4: "y1 div 4 = 100 * a + 25 * b + c"
    by (rule int_div_pos_eq[where r = e]) (use assms in \<open>simp_all add: y1_def\<close>)
  have d100: "y1 div 100 = 4 * a + b"
    by (rule int_div_pos_eq[where r = "4 * c + e"]) (use assms in \<open>simp_all add: y1_def\<close>)
  have d400: "y1 div 400 = a"
    by (rule int_div_pos_eq[where r = "100 * b + 4 * c + e"]) (use assms in \<open>simp_all add: y1_def\<close>)
  have "days_before_year (y1 + 1) = y1 * 365 + y1 div 4 - y1 div 100 + y1 div 400"
    by (simp add: days_before_year_def)
  also have "\<dots> = 146097 * a + 36524 * b + 1461 * c + 365 * e"
    unfolding d4 d100 d400 by (simp add: y1_def)
  finally show ?thesis by (simp add: y1_def)
qed

lemma leap_decomp:
  assumes "0 \<le> b" "b \<le> 3" "0 \<le> c" "c \<le> 24" "0 \<le> e" "e \<le> 3"
  shows "is_leap (400 * a + 100 * b + 4 * c + e + 1) = (e = 3 \<and> (c \<noteq> 24 \<or> b = 3))"
proof -
  define y where "y = 400 * a + 100 * b + 4 * c + e + 1"
  have "is_leap y = (e = 3 \<and> (c \<noteq> 24 \<or> b = 3))"
  proof (cases "e = 3")
    case False
    have "y mod 4 = e + 1"
      by (rule int_mod_pos_eq[where q = "100 * a + 25 * b + c"]) (use assms False in \<open>simp_all add: y_def\<close>)
    then show ?thesis using assms False by (simp add: is_leap_def)
  next
    case e3: True
    have m4: "y mod 4 = 0"
      by (rule int_mod_pos_eq[where q = "100 * a + 25 * b + c + 1"]) (use e3 in \<open>simp_all add: y_def\<close>)
    show ?thesis
    proof (cases "c = 24")
      case False
      have "y mod 100 = 4 * c + 4"
        by (rule int_mod_pos_eq[where q = "4 * a + b"]) (use assms e3 False in \<open>simp_all add: y_def\<close>)
      then show ?thesis using assms e3 False m4 by (simp add: is_leap_def)
    next
      case c24: True
      have m100: "y mod 100 = 0"
        by (rule int_mod_pos_eq[where q = "4 * a + b + 1"]) (use e3 c24 in \<open>simp_all add: y_def\<close>)
      show ?thesis
      proof (cases "b = 3")
        case True
        have "y mod 400 = 0"
          by (rule int_mod_pos_eq[where q = "a + 1"]) (use e3 c24 True in \<open>simp_all add: y_def\<close>)
        then show ?thesis using e3 c24 True m4 by (simp add: is_leap_def)
      next
        case False
        have "y mod 400 = 100 * b + 100"
          by (rule int_mod_pos_eq[where q = "a"]) (use assms e3 c24 False in \<open>simp_all add: y_def\<close>)
        then show ?thesis using assms e3 c24 False m4 m100 by (simp add: is_leap_def)
      qed
    qed
  qed
  then show ?thesis unfolding y_def .
qed


lemma ord2ymd_ok:
  assumes n1: "1 \<le> n" and res: "ord2ymd n = (y, m, d)"
  shows "1 \<le> y \<and> 1 \<le> m \<and> m \<le> 12 \<and> 1 \<le> d \<and> d \<le> days_in_month y m \<and> ymd2ord y m d = n
         \<and> (n \<le> 3652059 \<longrightarrow> y \<le> 9999)"
proof -
  define a where "a = (n - 1) div 146097"
  define r1 where "r1 = (n - 1) mod 146097"
  define b where "b = r1 div 36524"
  define r2 where "r2 = r1 mod 36524"
  define c where "c = r2 div 1461"
  define r3 where "r3 = r2 mod 1461"
  define e where "e = r3 div 365"
  define r4 where "r4 = r3 mod 365"
  have eq1: "n - 1 = 146097 * a + r1" and r1b: "0 \<le> r1" "r1 < 146097"
    by (simp_all add: a_def r1_def)
  have eq2: "r1 = 36524 * b + r2" and r2b: "0 \<le> r2" "r2 < 36524"
    by (simp_all add: b_def r2_def)
  have eq3: "r2 = 1461 * c + r3" and r3b: "0 \<le> r3" "r3 < 1461"
    by (simp_all add: c_def r3_def)
  have eq4: "r3 = 365 * e + r4" and r4b: "0 \<le> r4" "r4 < 365"
    by (simp_all add: e_def r4_def)
  have a0: "0 \<le> a" using n1 eq1 r1b by linarith
  have b0: "0 \<le> b" "b \<le> 4" using eq2 r1b r2b by linarith+
  have c0: "0 \<le> c" "c \<le> 24" using eq3 r2b r3b by linarith+
  have e0: "0 \<le> e" "e \<le> 4" using eq4 r3b r4b by linarith+
  define leap where "leap = (e = 3 \<and> (c \<noteq> 24 \<or> b = 3))"
  define Y where "Y = a * 400 + 1 + b * 100 + c * 4 + e"
  have unf: "ord2ymd n = (if e = 4 \<or> b = 4 then (Y - 1, 12, 31) else month_day Y leap r4)"
    unfolding ord2ymd_unfold Let_def a_def r1_def b_def r2_def c_def r3_def e_def r4_def leap_def Y_def
    by (rule refl)
  show ?thesis
  proof (cases "b = 4")
    case True
    then have z: "r2 = 0" "c = 0" "r3 = 0" "e = 0" "r4 = 0"
      using eq2 eq3 eq4 r1b r2b r3b r4b c0 e0 by linarith+
    have "(y, m, d) = (Y - 1, 12, 31)" using res True unf by simp
    then have y: "y = 400 * a + 100 * 3 + 4 * 24 + 3 + 1" and md: "m = 12" "d = 31"
      using True z by (simp_all add: Y_def)
    have dby: "days_before_year y = 146097 * a + 36524 * 3 + 1461 * 24 + 365 * 3"
      unfolding y by (rule dby_decomp) simp_all
    have lp: "is_leap y"
      unfolding y by (subst leap_decomp) simp_all
    have nn: "n = 146097 * a + 146097" using eq1 eq2 True z by linarith
    have y1: "1 \<le> y" unfolding y using a0 by linarith
    have yb: "n \<le> 3652059 \<longrightarrow> y \<le> 9999" unfolding y nn by linarith
    have "ymd2ord y 12 31 = n"
      unfolding ymd2ord_def dby nn using lp
      by (simp add: days_before_month_def DAYS_BEFORE_MONTH_def)
    moreover have "31 \<le> days_in_month y 12"
      by (simp add: days_in_month_def DAYS_IN_MONTH_def)
    ultimately show ?thesis using y1 md yb by simp
  next
    case bn4: False
    then have b3: "b \<le> 3" using b0 by linarith
    show ?thesis
    proof (cases "e = 4")
      case True
      then have r4z: "r4 = 0" and r3v: "r3 = 1460" using eq4 r3b r4b by linarith+
      have c23: "c \<le> 23" using eq3 r3v r2b by linarith
      have "(y, m, d) = (Y - 1, 12, 31)" using res True unf by simp
      then have y: "y = 400 * a + 100 * b + 4 * c + 3 + 1" and md: "m = 12" "d = 31"
        using True by (simp_all add: Y_def)
      have dby: "days_before_year y = 146097 * a + 36524 * b + 1461 * c + 365 * 3"
        unfolding y by (rule dby_decomp) (use b0 b3 c0 c23 in simp_all)
      have lp: "is_leap y"
        unfolding y by (subst leap_decomp) (use b0 b3 c0 c23 in simp_all)
      have nn: "n = 146097 * a + 36524 * b + 1461 * c + 1461" using eq1 eq2 eq3 r3v by linarith
      have y1: "1 \<le> y" unfolding y using a0 b0 c0 by linarith
      have yb: "n \<le> 3652059 \<longrightarrow> y \<le> 9999"
      proof
        assume nb: "n \<le> 3652059"
        have "a \<le> 24" using nb nn b0 c0 by linarith
        then show "y \<le> 9999" unfolding y using b3 c23 by linarith
      qed
      have "ymd2ord y 12 31 = n"
        unfolding ymd2ord_def dby nn using lp
        by (simp add: days_before_month_def DAYS_BEFORE_MONTH_def)
      moreover have "31 \<le> days_in_month y 12"
        by (simp add: days_in_month_def DAYS_IN_MONTH_def)
      ultimately show ?thesis using y1 md yb by simp
    next
      case en4: False
      then have e3: "e \<le> 3" using e0 by linarith
      have md: "month_day Y leap r4 = (y, m, d)" using res bn4 en4 unf by simp
      from month_day_ok[OF r4b md]
      have mdok: "y = Y" "1 \<le> m" "m \<le> 12" "1 \<le> d"
        "d \<le> (if m = 2 \<and> leap then 29 else DAYS_IN_MONTH ! nat m)"
        "DAYS_BEFORE_MONTH ! nat m + (if m > 2 \<and> leap then 1 else 0) + d = r4 + 1"
        by simp_all
      have y: "y = 400 * a + 100 * b + 4 * c + e + 1" using mdok(1) by (simp add: Y_def)
      have dby: "days_before_year y = 146097 * a + 36524 * b + 1461 * c + 365 * e"
        unfolding y by (rule dby_decomp) (use b0 b3 c0 e0 e3 in simp_all)
      have lp: "is_leap y = leap"
        unfolding y leap_def by (rule leap_decomp) (use b0 b3 c0 e0 e3 in simp_all)
      have nn: "n = 146097 * a + 36524 * b + 1461 * c + 365 * e + r4 + 1"
        using eq1 eq2 eq3 eq4 by linarith
      have y1: "1 \<le> y" unfolding y using a0 b0 c0 e0 by linarith
      have yb: "n \<le> 3652059 \<longrightarrow> y \<le> 9999"
      proof
        assume nb: "n \<le> 3652059"
        have a24: "a \<le> 24" using nb nn b0 c0 e0 r4b by linarith
        show "y \<le> 9999"
        proof (cases "a = 24 \<and> b = 3 \<and> c = 24")
          case True
          then have "e \<le> 2" using nb nn r4b by linarith
          then show ?thesis unfolding y using True by linarith
        next
          case False
          then consider "a \<le> 23" | "b \<le> 2" | "c \<le> 23" using a24 b3 c0(2) by linarith
          then show ?thesis
          proof cases
            case 1 then show ?thesis unfolding y using b3 c0 e3 by linarith
          next
            case 2 then show ?thesis unfolding y using a24 c0 e3 by linarith
          next
            case 3 then show ?thesis unfolding y using a24 b3 e3 by linarith
          qed
        qed
      qed
      have "ymd2ord y m d = n"
        unfolding ymd2ord_def days_before_month_def dby lp using mdok(6) nn by linarith
      moreover have "d \<le> days_in_month y m"
        unfolding days_in_month_def lp using mdok(5) by simp
      ultimately show ?thesis using y1 mdok(2,3,4) yb by simp
    qed
  qed
qed

lemma dbm_bound:
  assumes "1 \<le> m" "m \<le> 12" "1 \<le> d" "d \<le> days_in_month y m"
  shows "0 \<le> days_before_month y m \<and> days_before_month y m + d \<le> (if is_leap y then 366 else 365)"
proof -
  have "m \<in> {1,2,3,4,5,6,7,8,9,10,11,12}" using assms(1,2) by (rule int_1_12)
  then show ?thesis using assms(3,4)
    by (elim insertE emptyE)
       (simp_all add: days_before_month_def days_in_month_def DAYS_BEFORE_MONTH_def DAYS_IN_MONTH_def
          split: if_splits)
qed

lemma year_decomp:
  assumes "1 \<le> (y::int)"
  obtains a b c e where "y = 400 * a + 100 * b + 4 * c + e + 1"
    "0 \<le> a" "0 \<le> b" "b \<le> 3" "0 \<le> c" "c \<le> 24" "0 \<le> e" "e \<le> 3"
proof -
  define a where "a = (y - 1) div 400"
  define r where "r = (y - 1) mod 400"
  define b where "b = r div 100"
  define r' where "r' = r mod 100"
  define c where "c = r' div 4"
  define e where "e = r' mod 4"
  have eq1: "y - 1 = 400 * a + r" and rb: "0 \<le> r" "r < 400" by (simp_all add: a_def r_def)
  have eq2: "r = 100 * b + r'" and rb': "0 \<le> r'" "r' < 100" by (simp_all add: b_def r'_def)
  have eq3: "r' = 4 * c + e" and eb: "0 \<le> e" "e < 4" by (simp_all add: c_def e_def)
  have "y = 400 * a + 100 * b + 4 * c + e + 1" using eq1 eq2 eq3 by linarith
  moreover have "0 \<le> a" using assms eq1 rb by linarith
  moreover have "0 \<le> b" "b \<le> 3" using eq2 rb rb' by linarith+
  moreover have "0 \<le> c" "c \<le> 24" using eq3 rb' eb by linarith+
  moreover have "0 \<le> e" "e \<le> 3" using eb by linarith+
  ultimately show ?thesis using that by blast
qed

lemma valid_ord_range:
  assumes "valid_date y m d"
  shows "1 \<le> ymd2ord y m d \<and> ymd2ord y m d \<le> MAXORDINAL"
proof -
  from assms have v: "1 \<le> y" "y \<le> 9999" "1 \<le> m" "m \<le> 12" "1 \<le> d" "d \<le> days_in_month y m"
    by (simp_all add: valid_date_def MINYEAR_def MAXYEAR_def)
  from year_decomp[OF v(1)] obtain a b c e where
    y: "y = 400 * a + 100 * b + 4 * c + e + 1"
    and bnd: "0 \<le> a" "0 \<le> b" "b \<le> 3" "0 \<le> c" "c \<le> 24" "0 \<le> e" "e \<le> 3"
    by blast
  have dby: "days_before_year y = 146097 * a + 36524 * b + 1461 * c + 365 * e"
    unfolding y by (rule dby_decomp) (use bnd in simp_all)
  have lp: "is_leap y = (e = 3 \<and> (c \<noteq> 24 \<or> b = 3))"
    unfolding y by (rule leap_decomp) (use bnd in simp_all)
  from dbm_bound[OF v(3,4,5,6)]
  have m0: "0 \<le> days_before_month y m"
    and m1: "days_before_month y m + d \<le> (if is_leap y then 366 else 365)" by simp_all
  have lo: "1 \<le> ymd2ord y m d" unfolding ymd2ord_def dby using bnd m0 v(5) by linarith
  have a24: "a \<le> 24" using v(2) bnd unfolding y by linarith
  have hi: "ymd2ord y m d \<le> 3652059"
  proof (cases "a = 24 \<and> b = 3 \<and> c = 24")
    case True
    then have "e \<le> 2" using v(2) unfolding y by linarith
    then have "\<not> is_leap y" using lp by simp
    then have "days_before_month y m + d \<le> 365" using m1 by simp
    then show ?thesis unfolding ymd2ord_def dby using True \<open>e \<le> 2\<close> by linarith
  next
    case False
    have m2: "days_before_month y m + d \<le> 366" using m1 by (simp split: if_splits)
    from False consider "a \<le> 23" | "b \<le> 2" | "c \<le> 23" using a24 bnd by linarith
    then show ?thesis
    proof cases
      case 1 then show ?thesis unfolding ymd2ord_def dby using bnd m2 by linarith
    next
      case 2 then show ?thesis unfolding ymd2ord_def dby using a24 bnd m2 by linarith
    next
      case 3 then show ?thesis unfolding ymd2ord_def dby using a24 bnd m2 by linarith
    qed
  qed
  show ?thesis using lo hi by (simp add: MAXORDINAL_def)
qed

subsection \<open>Date arithmetic\<close>

lemma normalise_normalise: "normalise (normalise d) = normalise d"
  by (simp add: normalise_def)

lemma normalise_eq_iff:
  "normalise a = normalise b \<longleftrightarrow> year a = year b \<and> month a = month b \<and> day a = day b"
  by (cases a; cases b) (simp add: normalise_def)

lemma toordinal_normalise [simp]: "toordinal (normalise dt) = toordinal dt"
  by (simp add: toordinal_def normalise_def)

lemma weekday_normalise [simp]: "weekday (normalise dt) = weekday dt"
  by (simp add: weekday_def)

lemma valid_datetime_ord:
  "valid_datetime dt \<Longrightarrow> 1 \<le> toordinal dt \<and> toordinal dt \<le> 3652059"
  using valid_ord_range[of "year dt" "month dt" "day dt"]
  by (simp add: valid_datetime_def toordinal_def MAXORDINAL_def)

lemma valid_datetime_normalise: "valid_datetime dt \<Longrightarrow> valid_datetime (normalise dt)"
  by (simp add: valid_datetime_def normalise_def)

lemma days_from_fields:
  assumes "1 \<le> toordinal dt + n"
  shows "toordinal (days_from dt n) = toordinal dt + n"
    and "toordinal dt + n \<le> 3652059 \<Longrightarrow>
           valid_date (year (days_from dt n)) (month (days_from dt n)) (day (days_from dt n))"
proof -
  obtain y m d where o: "ord2ymd (toordinal dt + n) = (y, m, d)"
    by (cases "ord2ymd (toordinal dt + n)")
  have df: "days_from dt n = dt\<lparr>year := y, month := m, day := d\<rparr>"
    by (simp add: days_from_def o)
  from ord2ymd_ok[OF assms o]
  have ok: "1 \<le> y" "1 \<le> m" "m \<le> 12" "1 \<le> d" "d \<le> days_in_month y m"
    "ymd2ord y m d = toordinal dt + n" "toordinal dt + n \<le> 3652059 \<longrightarrow> y \<le> 9999"
    by simp_all
  show "toordinal (days_from dt n) = toordinal dt + n"
    by (simp add: df toordinal_def ok(6))
  show "valid_date (year (days_from dt n)) (month (days_from dt n)) (day (days_from dt n))"
    if "toordinal dt + n \<le> 3652059"
    using ok that by (simp add: df valid_date_def MINYEAR_def MAXYEAR_def)
qed

lemma days_from_time [simp]:
  "hour (days_from dt n) = hour dt" "minute (days_from dt n) = minute dt"
  "second (days_from dt n) = second dt" "microsecond (days_from dt n) = microsecond dt"
  by (simp_all add: days_from_def split: prod.splits)

lemma valid_datetime_days_from:
  "valid_datetime dt \<Longrightarrow> 1 \<le> toordinal dt + n \<Longrightarrow> toordinal dt + n \<le> 3652059
     \<Longrightarrow> valid_datetime (days_from dt n)"
  using days_from_fields(2)[of dt n] by (simp add: valid_datetime_def)

lemma days_from_days_from:
  assumes "1 \<le> toordinal dt + a"
  shows "days_from (days_from dt a) b = days_from dt (a + b)"
proof -
  have t: "toordinal (days_from dt a) = toordinal dt + a" using assms by (rule days_from_fields(1))
  show ?thesis
    unfolding days_from_def[of "days_from dt a" b] t
    by (simp add: days_from_def add.assoc split: prod.splits)
qed

lemma normalise_days_from: "normalise (days_from dt n) = days_from (normalise dt) n"
  by (simp add: days_from_def normalise_def toordinal_def split: prod.splits)

lemma weekday_days_from:
  "1 \<le> toordinal dt + n \<Longrightarrow> weekday (days_from dt n) = (weekday dt + n) mod 7"
  by (simp add: weekday_def days_from_fields(1) mod_simps algebra_simps)

lemma add_days_eq:
  "add_days dt n =
     (if 1 \<le> toordinal dt + n \<and> toordinal dt + n \<le> 3652059 then Inr (days_from dt n)
      else Inl OverflowError)"
  by (auto simp add: add_days_def days_from_def Let_def MAXORDINAL_def split: prod.splits)

lemma sub_days_eq:
  "sub_days dt n =
     (if 1 \<le> toordinal dt - n \<and> toordinal dt - n \<le> 3652059 then Inr (days_before dt n)
      else Inl OverflowError)"
  by (simp add: sub_days_def add_days_eq days_before_def)

lemma days_from_eq_iff:
  assumes "1 \<le> toordinal dt + a" "1 \<le> toordinal dt + b"
  shows "days_from dt a = days_from dt b \<longleftrightarrow> a = b"
proof
  assume "days_from dt a = days_from dt b"
  then have "toordinal (days_from dt a) = toordinal (days_from dt b)" by simp
  then show "a = b" using assms by (simp add: days_from_fields(1))
qed simp

lemma bindE_simps [simp]:
  "bindE (Inr x) f = f x" "bindE (Inl e) f = Inl e"
  by (simp_all add: bindE_def)

section \<open>Protocol 1\<close>

lemma range_upto_10: "range_upto 10 = [0, 1, 2, 3, 4, 5, 6, 7, 8, 9]"
  by (simp add: range_upto_def upto_rec1)

lemma protocol1_sessions_eq:
  assumes "valid_datetime R"
  shows "protocol1_sessions R =
     (if 20 \<le> toordinal R
      then Inr (map (days_before R) [19, 18, 17, 16, 15, 14, 13, 12, 11, 10],
                map (days_before R) [7, 5])
      else Inl OverflowError)"
proof -
  have hi: "toordinal R \<le> 3652059" using valid_datetime_ord[OF assms] by simp
  show ?thesis
  proof (cases "20 \<le> toordinal R")
    case True
    have t: "toordinal (days_before R 19) = toordinal R - 19"
      using True by (simp add: days_before_def days_from_fields(1))
    have c: "days_from (days_before R 19) i = days_before R (19 - i)" for i
      using True by (simp add: days_before_def days_from_days_from)
    show ?thesis using True hi
      by (simp add: protocol1_sessions_def PROTOCOL1_BOUT_START_DAYS_OUT_def
          PROTOCOL1_BOUT_DAYS_def PROTOCOL1_MAINTENANCE_DAYS_def range_upto_10
          sub_days_eq add_days_eq t c)
  next
    case False
    then show ?thesis using hi
      by (simp add: protocol1_sessions_def PROTOCOL1_BOUT_START_DAYS_OUT_def sub_days_eq)
  qed
qed

lemma distinct_by_toordinal: "distinct (map toordinal xs) \<Longrightarrow> distinct xs"
  by (rule distinct_map[THEN iffD1, THEN conjunct1])

lemma toordinal_days_before:
  "1 \<le> toordinal dt - n \<Longrightarrow> toordinal (days_before dt n) = toordinal dt - n"
  by (simp add: days_before_def days_from_fields(1))

lemma valid_datetime_days_before:
  "valid_datetime dt \<Longrightarrow> 1 \<le> toordinal dt - n \<Longrightarrow> toordinal dt - n \<le> 3652059
     \<Longrightarrow> valid_datetime (days_before dt n)"
  by (simp add: days_before_def valid_datetime_days_from)

lemma sample_race_valid: "valid_datetime sample_race" "toordinal sample_race = 739108"
  by (simp_all add: sample_race_def ymd_def valid_datetime_def valid_date_def MINYEAR_def MAXYEAR_def
      days_in_month_def DAYS_IN_MONTH_def toordinal_def ymd2ord_def days_before_year_def
      days_before_month_def DAYS_BEFORE_MONTH_def is_leap_def)

lemma valid_datetime_ymd: "valid_datetime (ymd y m d) = valid_date y m d"
  by (simp add: valid_datetime_def ymd_def)

text \<open>
  Claim C1, amended. For every well-formed race date \<open>R\<close> on or after 0001-01-20 (ordinal
  20), \<open>protocol1_sessions\<close> returns a bout of exactly the 10 consecutive dates
  \<open>R - 19, \<dots>, R - 10\<close> and a maintenance list of exactly the two dates \<open>R - 7\<close> and
  \<open>R - 5\<close>; all of them are well-formed dates and the 12 are pairwise distinct.
\<close>

theorem protocol1_sessions_dates:
  assumes "valid_datetime R" and "20 \<le> toordinal R"
  shows "\<exists>bout maintenance.
           protocol1_sessions R = Inr (bout, maintenance)
         \<and> bout = map (days_before R) [19, 18, 17, 16, 15, 14, 13, 12, 11, 10]
         \<and> maintenance = map (days_before R) [7, 5]
         \<and> length bout = 10 \<and> length maintenance = 2
         \<and> map toordinal bout = map (\<lambda>k. toordinal R - k) [19, 18, 17, 16, 15, 14, 13, 12, 11, 10]
         \<and> map toordinal maintenance = map (\<lambda>k. toordinal R - k) [7, 5]
         \<and> list_all valid_datetime (bout @ maintenance)
         \<and> distinct (bout @ maintenance)"
proof -
  have hi: "toordinal R \<le> 3652059" using valid_datetime_ord[OF assms(1)] by simp
  define bout where "bout = map (days_before R) [19, 18, 17, 16, 15, 14, 13, 12, 11, 10]"
  define maintenance where "maintenance = map (days_before R) [7, 5]"
  have r: "protocol1_sessions R = Inr (bout, maintenance)"
    using assms(2) by (simp add: protocol1_sessions_eq[OF assms(1)] bout_def maintenance_def)
  have ob: "map toordinal bout = map (\<lambda>k. toordinal R - k) [19, 18, 17, 16, 15, 14, 13, 12, 11, 10]"
    using assms(2) by (simp add: bout_def toordinal_days_before)
  have om: "map toordinal maintenance = map (\<lambda>k. toordinal R - k) [7, 5]"
    using assms(2) by (simp add: maintenance_def toordinal_days_before)
  have v: "list_all valid_datetime (bout @ maintenance)"
    using assms hi by (simp add: bout_def maintenance_def valid_datetime_days_before)
  have "distinct (map toordinal (bout @ maintenance))"
    unfolding map_append ob om by simp
  then have di: "distinct (bout @ maintenance)" by (rule distinct_by_toordinal)
  show ?thesis
    using r ob om v di by (intro exI[of _ bout] exI[of _ maintenance]) (simp add: bout_def maintenance_def)
qed

theorem protocol1_sessions_dates_witness:
  "valid_datetime sample_race \<and> 20 \<le> toordinal sample_race
   \<and> protocol1_sessions sample_race =
       Inr ([ymd 2024 7 22, ymd 2024 7 23, ymd 2024 7 24, ymd 2024 7 25, ymd 2024 7 26,
             ymd 2024 7 27, ymd 2024 7 28, ymd 2024 7 29, ymd 2024 7 30, ymd 2024 7 31],
            [ymd 2024 8 3, ymd 2024 8 5])
   \<and> distinct ([ymd 2024 7 22, ymd 2024 7 23, ymd 2024 7 24, ymd 2024 7 25, ymd 2024 7 26,
                ymd 2024 7 27, ymd 2024 7 28, ymd 2024 7 29, ymd 2024 7 30, ymd 2024 7 31]
               @ [ymd 2024 8 3, ymd 2024 8 5])"
proof -
  have v: "valid_datetime sample_race" by (rule sample_race_valid)
  have o: "20 \<le> toordinal sample_race" by (simp add: sample_race_valid)
  have e: "protocol1_sessions sample_race =
       Inr ([ymd 2024 7 22, ymd 2024 7 23, ymd 2024 7 24, ymd 2024 7 25, ymd 2024 7 26,
             ymd 2024 7 27, ymd 2024 7 28, ymd 2024 7 29, ymd 2024 7 30, ymd 2024 7 31],
            [ymd 2024 8 3, ymd 2024 8 5])"
    by code_simp
  from protocol1_sessions_dates[OF v o] obtain bout maintenance where
    "protocol1_sessions sample_race = Inr (bout, maintenance)" "distinct (bout @ maintenance)"
    by blast
  with e have "distinct ([ymd 2024 7 22, ymd 2024 7 23, ymd 2024 7 24, ymd 2024 7 25, ymd 2024 7 26,
                ymd 2024 7 27, ymd 2024 7 28, ymd 2024 7 29, ymd 2024 7 30, ymd 2024 7 31]
               @ [ymd 2024 8 3, ymd 2024 8 5])"
    by simp
  with v o e show ?thesis by blast
qed

text \<open>
  The claim as stated, for every race date, fails at the race date 0001-01-05: the date
  19 days earlier is before 0001-01-01, the first date the library represents, and the
  subtraction raises \<^verbatim>\<open>OverflowError\<close>, so no lists are returned.
\<close>

theorem protocol1_sessions_counterexample:
  "valid_datetime (ymd 1 1 5) \<and> protocol1_sessions (ymd 1 1 5) = Inl OverflowError"
  by code_simp

section \<open>Protocol 2\<close>

lemma weekday_range: "0 \<le> weekday dt \<and> weekday dt \<le> 6"
  by (simp add: weekday_def)

lemma weekday_weeks_before:
  assumes "1 \<le> toordinal dt - k * 7"
  shows "weekday (days_from dt (- (k * 7))) = weekday dt"
proof -
  have t: "toordinal (days_from dt (- (k * 7))) = toordinal dt - k * 7"
    using assms by (simp add: days_from_fields(1))
  have "weekday (days_from dt (- (k * 7))) = (toordinal dt - k * 7 + 6) mod 7"
    unfolding weekday_def t by (rule refl)
  also have "\<dots> = (toordinal dt + 6) mod 7"
    by presburger
  finally show ?thesis by (simp add: weekday_def)
qed

lemma monday_in_range:
  fixes ord :: int
  assumes "48 \<le> ord"
  shows "1 \<le> ord - 42 - (ord + 6) mod 7"
proof (cases "ord = 48")
  case True
  then show ?thesis by simp
next
  case False
  have "(ord + 6) mod 7 \<le> 6" by presburger
  then show ?thesis using assms False by linarith
qed

text \<open>Where the anchor of bout 1 exists, it is the date 47 days before the race.\<close>

lemma monday_6w_eq:
  assumes "valid_datetime R"
  shows "monday_6w R =
     (if 1 \<le> toordinal R - 42 - weekday R
      then Inr (days_from (normalise R) (- 42 - weekday R)) else Inl OverflowError)"
proof -
  have hi: "toordinal R \<le> 3652059" using valid_datetime_ord[OF assms] by simp
  have wr: "0 \<le> weekday R" "weekday R \<le> 6" using weekday_range[of R] by simp_all
  show ?thesis
  proof (cases "1 \<le> toordinal R - 42")
    case True
    have w: "weekday (days_from (normalise R) (- 42)) = weekday R"
      using weekday_weeks_before[of "normalise R" 6] True by simp
    have t: "toordinal (days_from (normalise R) (- 42)) = toordinal R - 42"
      using True by (simp add: days_from_fields(1))
    have c: "days_from (days_from (normalise R) (- 42)) (- weekday R)
               = days_from (normalise R) (- 42 - weekday R)"
      using True by (simp add: days_from_days_from)
    show ?thesis using True hi wr
      by (simp add: monday_6w_def Let_def sub_days_def add_days_eq w t c)
  next
    case False
    then show ?thesis using wr
      by (simp add: monday_6w_def Let_def sub_days_def add_days_eq)
  qed
qed

lemma block_start_eq:
  assumes "valid_datetime R"
  shows "block_start R =
     (if 48 \<le> toordinal R then Inr (days_from (normalise R) (- 47)) else Inl OverflowError)"
proof -
  have hi: "toordinal R \<le> 3652059" using valid_datetime_ord[OF assms] by simp
  have wr: "0 \<le> weekday R" "weekday R \<le> 6" using weekday_range[of R] by simp_all
  show ?thesis
  proof (cases "48 \<le> toordinal R")
    case True
    have m: "1 \<le> toordinal R - 42 - weekday R"
      using monday_in_range[OF True] by (simp add: weekday_def)
    have t: "toordinal (days_from (normalise R) (- 42 - weekday R)) = toordinal R - 42 - weekday R"
      using m by (simp add: days_from_fields(1))
    have c: "days_from (days_from (normalise R) (- 42 - weekday R)) (weekday R - 5)
               = days_from (normalise R) (- 47)"
      using m by (simp add: days_from_days_from)
    show ?thesis using True hi m
      by (simp add: block_start_def monday_6w_eq[OF assms] weekday_offset_def add_days_eq t c)
  next
    case False
    show ?thesis
    proof (cases "1 \<le> toordinal R - 42 - weekday R")
      case m: True
      have t: "toordinal (days_from (normalise R) (- 42 - weekday R)) = toordinal R - 42 - weekday R"
        using m by (simp add: days_from_fields(1))
      show ?thesis using False m
        by (simp add: block_start_def monday_6w_eq[OF assms] weekday_offset_def add_days_eq t)
    next
      case m: False
      then show ?thesis using False
        by (simp add: block_start_def monday_6w_eq[OF assms])
    qed
  qed
qed

lemma block_start_m_eq:
  assumes "valid_datetime R" "1 \<le> toordinal R - k * 7 - 6" "0 \<le> k"
  shows "block_start_m (normalise R) (weekday_offset R) k = Inr (days_from (normalise R) (- (k * 7) - 5))"
proof -
  have hi: "toordinal R \<le> 3652059" using valid_datetime_ord[OF assms(1)] by simp
  have wr: "0 \<le> weekday R" "weekday R \<le> 6" using weekday_range[of R] by simp_all
  have k0: "1 \<le> toordinal R - k * 7" using assms(2) by linarith
  have w: "weekday (days_from (normalise R) (- (k * 7))) = weekday R"
    using weekday_weeks_before[of "normalise R" k] k0 by simp
  have t: "toordinal (days_from (normalise R) (- (k * 7))) = toordinal R - k * 7"
    using k0 by (simp add: days_from_fields(1))
  have m: "1 \<le> toordinal R - k * 7 - weekday R" using assms(2) wr by linarith
  have c1: "days_from (days_from (normalise R) (- (k * 7))) (- weekday R)
              = days_from (normalise R) (- (k * 7) - weekday R)"
    using k0 by (simp add: days_from_days_from)
  have t2: "toordinal (days_from (normalise R) (- (k * 7) - weekday R)) = toordinal R - k * 7 - weekday R"
    using m by (simp add: days_from_fields(1))
  have c2: "days_from (days_from (normalise R) (- (k * 7) - weekday R)) (weekday R - 5)
              = days_from (normalise R) (- (k * 7) - 5)"
    using m by (simp add: days_from_days_from)
  have k1: "toordinal R - k * 7 \<le> 3652059"
    using assms(3) hi by linarith
  show ?thesis using k0 m hi wr assms(2,3) k1
    by (simp add: block_start_m_def monday_of_week_def sub_days_def add_days_eq
        weekday_offset_def w t c1 t2 c2)
qed


lemma protocol2_sessions_eq:
  assumes "valid_datetime R"
  shows "protocol2_sessions R =
     (if 48 \<le> toordinal R
      then Inr (map (days_before (normalise R)) [47, 46, 44, 43, 42, 40, 39, 37, 36, 35, 34],
                map (days_before (normalise R)) [31, 28, 24, 21, 17, 14],
                map (days_before (normalise R)) [12, 11, 9, 8, 7, 6, 5, 4, 2])
      else Inl OverflowError)"
proof (cases "48 \<le> toordinal R")
  case False
  then show ?thesis
    by (simp add: protocol2_sessions_def Let_def block_start_eq[OF assms])
next
  case True
  have hi: "toordinal R \<le> 3652059" using valid_datetime_ord[OF assms] by simp
  define Rn where "Rn = normalise R"
  have tn: "toordinal Rn = toordinal R" by (simp add: Rn_def)
  have sub: "sub_days Rn k = Inr (days_before Rn k)" if "0 \<le> k" "k \<le> 47" for k
    using that True hi by (simp add: sub_days_eq tn)
  have t47: "toordinal (days_from Rn (- 47)) = toordinal R - 47"
    using True by (simp add: days_from_fields(1) tn)
  have add47: "add_days (days_from Rn (- 47)) i = Inr (days_from Rn (- 47 + i))"
    if "0 \<le> i" "i \<le> 13" for i
    using that True hi by (simp add: add_days_eq t47 days_from_days_from tn)
  have b1: "mapE (\<lambda>i. add_days (days_from Rn (- 47)) i) bout1_offsets
              = Inr (map (days_before Rn) [47, 46, 44, 43, 42, 40, 39, 37, 36, 35, 34])"
    by (simp add: bout1_offsets_def add47 days_before_def)
  have bsm: "block_start_m Rn (weekday_offset R) k = Inr (days_from Rn (- (k * 7) - 5))"
    if "0 \<le> k" "k \<le> 4" for k
    unfolding Rn_def using that True by (intro block_start_m_eq[OF assms]) simp_all
  have tm: "toordinal (days_from Rn (- (k * 7) - 5)) = toordinal R - k * 7 - 5"
    if "0 \<le> k" "k \<le> 4" for k
    using that True by (simp add: days_from_fields(1) tn)
  have addm: "add_days (days_from Rn (- (k * 7) - 5)) i = Inr (days_from Rn (- (k * 7) - 5 + i))"
    if "0 \<le> k" "k \<le> 4" "0 \<le> i" "i \<le> 5" for k i
    using that True hi by (simp add: add_days_eq tm days_from_days_from tn)
  have ml: "maintenance_loop Rn (weekday_offset R) [4, 3, 2] []
              = Inr (map (days_before Rn) [31, 28, 24, 21, 17, 14])"
  proof -
    have a4: "add_days (days_from Rn (- 33)) i = Inr (days_from Rn (- 33 + i))"
      if "0 \<le> i" "i \<le> 5" for i using addm[of 4 i] that by simp
    have a3: "add_days (days_from Rn (- 26)) i = Inr (days_from Rn (- 26 + i))"
      if "0 \<le> i" "i \<le> 5" for i using addm[of 3 i] that by simp
    have a2: "add_days (days_from Rn (- 19)) i = Inr (days_from Rn (- 19 + i))"
      if "0 \<le> i" "i \<le> 5" for i using addm[of 2 i] that by simp
    show ?thesis by (simp add: bsm a4 a3 a2 days_before_def)
  qed
  have b2a: "mapE (\<lambda>d. sub_days Rn d) bout2_week1_offsets = Inr (map (days_before Rn) [12, 11, 9, 8, 7, 6])"
    by (simp add: bout2_week1_offsets_def sub)
  have b2b: "mapE (\<lambda>d. sub_days Rn d) [5, 4, 2] = Inr (map (days_before Rn) [5, 4, 2])"
    by (simp add: sub)
  show ?thesis using True
    by (simp add: protocol2_sessions_def Let_def block_start_eq[OF assms] Rn_def[symmetric] b1 ml b2a b2b
          del: maintenance_loop.simps mapE.simps)
qed

section \<open>Protocol 2: the returned lists\<close>

lemma weekday_days_before:
  "1 \<le> toordinal dt - n \<Longrightarrow> weekday (days_before dt n) = (weekday dt - n) mod 7"
  by (simp add: days_before_def weekday_days_from)

lemma days_from_days_before:
  "1 \<le> toordinal dt - a \<Longrightarrow> days_from (days_before dt a) b = days_before dt (a - b)"
  by (simp add: days_before_def days_from_days_from)

text \<open>
  Claim C2, amended. For every well-formed race date \<open>R\<close> on or after 0001-02-17 (ordinal
  48), \<open>protocol2_sessions\<close> returns a bout-1 list of exactly 11 dates, obtained by
  adding the day offsets 0, 1, 3, 4, 5, 7, 8, 10, 11, 12, 13 to the anchor; the anchor is
  the Monday of the week containing \<open>R - 42\<close> days, shifted by
  \<open>weekday_offset = weekday R - 5\<close>; the last date is 13 days after the first.
\<close>

theorem protocol2_bout1_dates:
  assumes "valid_datetime R" and "48 \<le> toordinal R"
  shows "\<exists>monday anchor bout1 maintenance bout2.
           monday_6w R = Inr monday
         \<and> weekday monday = 0
         \<and> toordinal monday \<le> toordinal R - 42 \<and> toordinal R - 42 \<le> toordinal monday + 6
         \<and> weekday_offset R = weekday R - 5
         \<and> add_days monday (weekday_offset R) = Inr anchor
         \<and> block_start R = Inr anchor
         \<and> protocol2_sessions R = Inr (bout1, maintenance, bout2)
         \<and> bout1 = map (days_from anchor) [0, 1, 3, 4, 5, 7, 8, 10, 11, 12, 13]
         \<and> length bout1 = 11
         \<and> map toordinal bout1 = map (\<lambda>i. toordinal anchor + i) [0, 1, 3, 4, 5, 7, 8, 10, 11, 12, 13]
         \<and> toordinal (last bout1) - toordinal (hd bout1) = 13"
proof -
  have hi: "toordinal R \<le> 3652059" using valid_datetime_ord[OF assms(1)] by simp
  have wr: "0 \<le> weekday R" "weekday R \<le> 6" using weekday_range[of R] by simp_all
  define Rn where "Rn = normalise R"
  have tn: "toordinal Rn = toordinal R" "weekday Rn = weekday R" by (simp_all add: Rn_def)
  define monday where "monday = days_from Rn (- 42 - weekday R)"
  define anchor where "anchor = days_before Rn 47"
  have m: "1 \<le> toordinal R - 42 - weekday R"
    using monday_in_range[OF assms(2)] by (simp add: weekday_def)
  have mon: "monday_6w R = Inr monday"
    using m by (simp add: monday_6w_eq[OF assms(1)] monday_def Rn_def)
  have tm: "toordinal monday = toordinal R - 42 - weekday R"
    using m by (simp add: monday_def days_from_fields(1) tn)
  have wm: "weekday monday = 0"
    using m wr by (simp add: monday_def weekday_days_from tn)
  have bs: "block_start R = Inr anchor"
    using assms(2) by (simp add: block_start_eq[OF assms(1)] anchor_def days_before_def Rn_def)
  have sh: "add_days monday (weekday_offset R) = Inr anchor"
    using bs mon by (simp add: block_start_def)
  have ta: "toordinal anchor = toordinal R - 47"
    using assms(2) by (simp add: anchor_def toordinal_days_before tn)
  have da: "days_from anchor i = days_before Rn (47 - i)" for i
    using assms(2) by (simp add: anchor_def days_from_days_before tn)
  define bout1 where "bout1 = map (days_from anchor) [0, 1, 3, 4, 5, 7, 8, 10, 11, 12, 13]"
  have b1: "bout1 = map (days_before Rn) [47, 46, 44, 43, 42, 40, 39, 37, 36, 35, 34]"
    by (simp add: bout1_def da)
  have ps: "protocol2_sessions R = Inr (bout1, map (days_before Rn) [31, 28, 24, 21, 17, 14],
              map (days_before Rn) [12, 11, 9, 8, 7, 6, 5, 4, 2])"
    using assms(2) by (simp add: protocol2_sessions_eq[OF assms(1)] b1 Rn_def)
  have ob: "map toordinal bout1 = map (\<lambda>i. toordinal anchor + i) [0, 1, 3, 4, 5, 7, 8, 10, 11, 12, 13]"
    using assms(2) by (simp add: b1 ta toordinal_days_before tn)
  have sp: "toordinal (last bout1) - toordinal (hd bout1) = 13"
    using assms(2) by (simp add: b1 toordinal_days_before tn)
  have len: "length bout1 = 11" by (simp add: bout1_def)
  show ?thesis
    using mon wm tm wr sh bs ps ob sp len
    by (intro exI[of _ monday] exI[of _ anchor] exI[of _ bout1]
        exI[of _ "map (days_before Rn) [31, 28, 24, 21, 17, 14]"]
        exI[of _ "map (days_before Rn) [12, 11, 9, 8, 7, 6, 5, 4, 2]"])
       (simp add: bout1_def weekday_offset_def)
qed

theorem protocol2_bout1_dates_witness:
  "valid_datetime thursday_race \<and> 48 \<le> toordinal thursday_race
   \<and> weekday thursday_race = 3
   \<and> monday_6w thursday_race = Inr (ymd 2024 6 24)
   \<and> block_start thursday_race = Inr (ymd 2024 6 22)
   \<and> map_sum id fst (protocol2_sessions thursday_race) =
       Inr [ymd 2024 6 22, ymd 2024 6 23, ymd 2024 6 25, ymd 2024 6 26, ymd 2024 6 27,
            ymd 2024 6 29, ymd 2024 6 30, ymd 2024 7 2, ymd 2024 7 3, ymd 2024 7 4, ymd 2024 7 5]
   \<and> toordinal (ymd 2024 7 5) - toordinal (ymd 2024 6 22) = 13"
proof -
  have v: "valid_datetime thursday_race" by code_simp
  have o: "48 \<le> toordinal thursday_race" by code_simp
  have w: "weekday thursday_race = 3" by code_simp
  have m: "monday_6w thursday_race = Inr (ymd 2024 6 24)" by code_simp
  have b: "block_start thursday_race = Inr (ymd 2024 6 22)" by code_simp
  have p: "map_sum id fst (protocol2_sessions thursday_race) =
       Inr [ymd 2024 6 22, ymd 2024 6 23, ymd 2024 6 25, ymd 2024 6 26, ymd 2024 6 27,
            ymd 2024 6 29, ymd 2024 6 30, ymd 2024 7 2, ymd 2024 7 3, ymd 2024 7 4, ymd 2024 7 5]"
    by code_simp
  from protocol2_bout1_dates[OF v o] obtain bout1 maintenance bout2 where
    r: "protocol2_sessions thursday_race = Inr (bout1, maintenance, bout2)"
    and s: "toordinal (last bout1) - toordinal (hd bout1) = 13"
    by blast
  from p r have "bout1 = [ymd 2024 6 22, ymd 2024 6 23, ymd 2024 6 25, ymd 2024 6 26, ymd 2024 6 27,
            ymd 2024 6 29, ymd 2024 6 30, ymd 2024 7 2, ymd 2024 7 3, ymd 2024 7 4, ymd 2024 7 5]"
    by simp
  with s have "toordinal (ymd 2024 7 5) - toordinal (ymd 2024 6 22) = 13" by simp
  with v o w m b p show ?thesis by blast
qed

text \<open>
  The claim as stated, for every race date, fails at the race date 0001-02-16: the
  anchor of bout 1 would be the day before 0001-01-01, and the function raises
  \<^verbatim>\<open>OverflowError\<close> instead of returning.
\<close>

theorem protocol2_bout1_counterexample:
  "valid_datetime (ymd 1 2 16) \<and> protocol2_sessions (ymd 1 2 16) = Inl OverflowError"
  by code_simp

text \<open>
  Claim C4, amended. For every well-formed race date \<open>R\<close> on or after 0001-02-17,
  \<open>protocol2_sessions\<close> returns a bout-2 list of exactly 9 dates counted back from the
  race date itself (at midnight), whatever its weekday: first \<open>R - 12, R - 11, R - 9,
  R - 8, R - 7, R - 6\<close>, then \<open>R - 5, R - 4, R - 2\<close>.
\<close>

theorem protocol2_bout2_dates:
  assumes "valid_datetime R" and "48 \<le> toordinal R"
  shows "\<exists>bout1 maintenance bout2.
           protocol2_sessions R = Inr (bout1, maintenance, bout2)
         \<and> length bout2 = 9
         \<and> take 6 bout2 = map (days_before (normalise R)) [12, 11, 9, 8, 7, 6]
         \<and> drop 6 bout2 = map (days_before (normalise R)) [5, 4, 2]
         \<and> map toordinal bout2 = map (\<lambda>k. toordinal R - k) [12, 11, 9, 8, 7, 6, 5, 4, 2]
         \<and> list_all valid_datetime bout2
         \<and> list_all (\<lambda>d. normalise d = d) bout2"
proof -
  have hi: "toordinal R \<le> 3652059" using valid_datetime_ord[OF assms(1)] by simp
  have vn: "valid_datetime (normalise R)" using assms(1) by (rule valid_datetime_normalise)
  have nn: "normalise (days_before (normalise R) k) = days_before (normalise R) k" for k
    by (simp add: days_before_def normalise_days_from normalise_normalise)
  show ?thesis
    using assms(2) hi vn
    by (simp add: protocol2_sessions_eq[OF assms(1)] toordinal_days_before
        valid_datetime_days_before nn)
qed

theorem protocol2_bout2_dates_witness:
  "valid_datetime sample_race \<and> 48 \<le> toordinal sample_race
   \<and> map_sum id (snd \<circ> snd) (protocol2_sessions sample_race) =
       Inr [ymd 2024 7 29, ymd 2024 7 30, ymd 2024 8 1, ymd 2024 8 2, ymd 2024 8 3,
            ymd 2024 8 4, ymd 2024 8 5, ymd 2024 8 6, ymd 2024 8 8]
   \<and> drop 6 [ymd 2024 7 29, ymd 2024 7 30, ymd 2024 8 1, ymd 2024 8 2, ymd 2024 8 3,
            ymd 2024 8 4, ymd 2024 8 5, ymd 2024 8 6, ymd 2024 8 8]
       = map (days_before (normalise sample_race)) [5, 4, 2]"
proof -
  have v: "valid_datetime sample_race" by (rule sample_race_valid)
  have o: "48 \<le> toordinal sample_race" by (simp add: sample_race_valid)
  have p: "map_sum id (snd \<circ> snd) (protocol2_sessions sample_race) =
       Inr [ymd 2024 7 29, ymd 2024 7 30, ymd 2024 8 1, ymd 2024 8 2, ymd 2024 8 3,
            ymd 2024 8 4, ymd 2024 8 5, ymd 2024 8 6, ymd 2024 8 8]"
    by code_simp
  from protocol2_bout2_dates[OF v o] obtain bout1 maintenance bout2 where
    r: "protocol2_sessions sample_race = Inr (bout1, maintenance, bout2)"
    and s: "drop 6 bout2 = map (days_before (normalise sample_race)) [5, 4, 2]"
    by blast
  from p r have "bout2 = [ymd 2024 7 29, ymd 2024 7 30, ymd 2024 8 1, ymd 2024 8 2, ymd 2024 8 3,
            ymd 2024 8 4, ymd 2024 8 5, ymd 2024 8 6, ymd 2024 8 8]"
    by simp
  with s v o p show ?thesis by blast
qed

text \<open>
  The claim as stated, for every race date, fails at the race date 0001-01-13. All nine
  dates of bout 2 exist there (the earliest is 0001-01-01), but the function computes
  bout 1 first, whose anchor is out of range, and raises \<^verbatim>\<open>OverflowError\<close>: no bout-2
  list is returned.
\<close>

theorem protocol2_bout2_counterexample:
  "valid_datetime (ymd 1 1 13) \<and> sub_days (ymd 1 1 13) 12 = Inr (ymd 1 1 1)
   \<and> protocol2_sessions (ymd 1 1 13) = Inl OverflowError"
  by code_simp

lemma monday_of_week_eq:
  assumes "valid_datetime R" "1 \<le> toordinal R - k * 7 - 6" "0 \<le> k"
  shows "monday_of_week (normalise R) k = Inr (days_from (normalise R) (- (k * 7) - weekday R))"
proof -
  have hi: "toordinal R \<le> 3652059" using valid_datetime_ord[OF assms(1)] by simp
  have wr: "0 \<le> weekday R" "weekday R \<le> 6" using weekday_range[of R] by simp_all
  have k0: "1 \<le> toordinal R - k * 7" using assms(2) by linarith
  have w: "weekday (days_from (normalise R) (- (k * 7))) = weekday R"
    using weekday_weeks_before[of "normalise R" k] k0 by simp
  have t: "toordinal (days_from (normalise R) (- (k * 7))) = toordinal R - k * 7"
    using k0 by (simp add: days_from_fields(1))
  have c1: "days_from (days_from (normalise R) (- (k * 7))) (- weekday R)
              = days_from (normalise R) (- (k * 7) - weekday R)"
    using k0 by (simp add: days_from_days_from)
  have k1: "toordinal R - k * 7 \<le> 3652059" using assms(3) hi by linarith
  show ?thesis using k0 hi wr assms(2,3) k1
    by (simp add: monday_of_week_def sub_days_def add_days_eq w t c1)
qed

lemma weekday_cases: "weekday dt \<in> {0, 1, 2, 3, 4, 5, 6}"
proof -
  have "0 \<le> weekday dt" "weekday dt \<le> 6" using weekday_range[of dt] by simp_all
  then show ?thesis by (simp, arith)
qed

lemma calendar_week_days_before:
  "1 \<le> toordinal dt - n \<Longrightarrow>
     calendar_week (days_before dt n) = toordinal dt - n - (weekday dt - n) mod 7"
  by (simp add: calendar_week_def toordinal_days_before weekday_days_before)

lemma maintenance_weeks:
  assumes "32 \<le> toordinal dt"
  shows "card (calendar_week ` set (map (days_before dt) [31, 28, 24, 21, 17, 14]))
           = (if 3 \<le> weekday dt then 3 else 4)"
proof -
  have cw: "calendar_week (days_before dt n) = toordinal dt - n - (weekday dt - n) mod 7"
    if "n \<le> 31" for n
    using that assms by (simp add: calendar_week_days_before)
  show ?thesis
    using weekday_cases[of dt]
    by (elim insertE emptyE) (simp_all add: cw)
qed

text \<open>
  Claim C3, amended. For every well-formed race date \<open>R\<close> on or after 0001-02-17,
  \<open>protocol2_sessions\<close> returns a maintenance list of exactly 6 dates: for \<open>weeks_out\<close>
  4, 3, 2 in this order, the dates anchor + 2 and anchor + 5, where the anchor is the
  Monday of the week containing \<open>R - weeks_out * 7\<close> days shifted by
  \<open>weekday_offset = weekday R - 5\<close>. The three anchors are 7 days apart, so the pairs lie
  in three consecutive 7-day blocks; these blocks are the Monday-to-Sunday calendar
  weeks only up to the shift, and the 6 dates fall in 3 distinct calendar weeks when the
  race is on a Thursday to Sunday and in 4 when it is on a Monday to Wednesday.
\<close>

theorem protocol2_maintenance_dates:
  assumes "valid_datetime R" and "48 \<le> toordinal R"
  shows "\<exists>bout1 maintenance bout2 m4 m3 m2 a4 a3 a2.
           protocol2_sessions R = Inr (bout1, maintenance, bout2)
         \<and> monday_of_week (normalise R) 4 = Inr m4
         \<and> monday_of_week (normalise R) 3 = Inr m3
         \<and> monday_of_week (normalise R) 2 = Inr m2
         \<and> list_all (\<lambda>m. weekday m = 0) [m4, m3, m2]
         \<and> toordinal m4 \<le> toordinal R - 28 \<and> toordinal R - 28 \<le> toordinal m4 + 6
         \<and> toordinal m3 \<le> toordinal R - 21 \<and> toordinal R - 21 \<le> toordinal m3 + 6
         \<and> toordinal m2 \<le> toordinal R - 14 \<and> toordinal R - 14 \<le> toordinal m2 + 6
         \<and> add_days m4 (weekday R - 5) = Inr a4
         \<and> add_days m3 (weekday R - 5) = Inr a3
         \<and> add_days m2 (weekday R - 5) = Inr a2
         \<and> maintenance = [days_from a4 2, days_from a4 5, days_from a3 2, days_from a3 5,
                            days_from a2 2, days_from a2 5]
         \<and> length maintenance = 6
         \<and> map toordinal maintenance = map (\<lambda>k. toordinal R - k) [31, 28, 24, 21, 17, 14]
         \<and> toordinal a3 = toordinal a4 + 7 \<and> toordinal a2 = toordinal a3 + 7
         \<and> card (calendar_week ` set maintenance) = (if 3 \<le> weekday R then 3 else 4)"
proof -
  have hi: "toordinal R \<le> 3652059" using valid_datetime_ord[OF assms(1)] by simp
  have wr: "0 \<le> weekday R" "weekday R \<le> 6" using weekday_range[of R] by simp_all
  define Rn where "Rn = normalise R"
  have tn: "toordinal Rn = toordinal R" "weekday Rn = weekday R" by (simp_all add: Rn_def)
  define mon where "mon k = days_from Rn (- (k * 7) - weekday R)" for k
  define anc where "anc k = days_from Rn (- (k * 7) - 5)" for k
  define maintenance where "maintenance = map (days_before Rn) [31, 28, 24, 21, 17, 14]"
  have kr: "1 \<le> toordinal R - k * 7 - 6" if "k \<le> 4" for k using that assms(2) by linarith
  have mw: "monday_of_week Rn k = Inr (mon k)" if "0 \<le> k" "k \<le> 4" for k
    unfolding Rn_def mon_def using that kr by (intro monday_of_week_eq[OF assms(1)]) simp_all
  have tm: "toordinal (mon k) = toordinal R - k * 7 - weekday R" if "0 \<le> k" "k \<le> 4" for k
    using that kr[of k] wr by (simp add: mon_def days_from_fields(1) tn)
  have wm: "weekday (mon k) = 0" if "0 \<le> k" "k \<le> 4" for k
  proof -
    have "1 \<le> toordinal Rn + (- (k * 7) - weekday R)" using that kr[of k] wr tn by linarith
    then have "weekday (mon k) = (weekday R + (- (k * 7) - weekday R)) mod 7"
      unfolding mon_def by (simp add: weekday_days_from tn)
    also have "\<dots> = 0" by presburger
    finally show ?thesis .
  qed
  have ad: "add_days (mon k) (weekday R - 5) = Inr (anc k)" if "0 \<le> k" "k \<le> 4" for k
  proof -
    have "block_start_m Rn (weekday_offset R) k = Inr (anc k)"
      unfolding Rn_def anc_def using that kr by (intro block_start_m_eq[OF assms(1)]) simp_all
    then show ?thesis using mw[OF that] by (simp add: block_start_m_def weekday_offset_def)
  qed
  have ta: "toordinal (anc k) = toordinal R - k * 7 - 5" if "0 \<le> k" "k \<le> 4" for k
    using that kr[of k] by (simp add: anc_def days_from_fields(1) tn)
  have da: "days_from (anc k) i = days_from Rn (- (k * 7) - 5 + i)" if "0 \<le> k" "k \<le> 4" for k i
    using that kr[of k] by (simp add: anc_def days_from_days_from tn)
  have ml: "maintenance = [days_from (anc 4) 2, days_from (anc 4) 5, days_from (anc 3) 2,
              days_from (anc 3) 5, days_from (anc 2) 2, days_from (anc 2) 5]"
    by (simp add: maintenance_def da days_before_def)
  have ps: "protocol2_sessions R =
      Inr (map (days_before Rn) [47, 46, 44, 43, 42, 40, 39, 37, 36, 35, 34], maintenance,
           map (days_before Rn) [12, 11, 9, 8, 7, 6, 5, 4, 2])"
    using assms(2) by (simp add: protocol2_sessions_eq[OF assms(1)] maintenance_def Rn_def)
  have om: "map toordinal maintenance = map (\<lambda>k. toordinal R - k) [31, 28, 24, 21, 17, 14]"
    using assms(2) by (simp add: maintenance_def toordinal_days_before tn)
  have cw: "card (calendar_week ` set maintenance) = (if 3 \<le> weekday R then 3 else 4)"
    unfolding maintenance_def using maintenance_weeks[of Rn] assms(2) by (simp add: tn)
  have len: "length maintenance = 6" by (simp add: maintenance_def)
  have mons: "monday_of_week Rn 4 = Inr (mon 4)" "monday_of_week Rn 3 = Inr (mon 3)"
    "monday_of_week Rn 2 = Inr (mon 2)"
    by (simp_all add: mw)
  have wms: "list_all (\<lambda>m. weekday m = 0) [mon 4, mon 3, mon 2]" by (simp add: wm)
  have tms: "toordinal (mon 4) \<le> toordinal R - 28" "toordinal R - 28 \<le> toordinal (mon 4) + 6"
    "toordinal (mon 3) \<le> toordinal R - 21" "toordinal R - 21 \<le> toordinal (mon 3) + 6"
    "toordinal (mon 2) \<le> toordinal R - 14" "toordinal R - 14 \<le> toordinal (mon 2) + 6"
    using wr by (simp_all add: tm)
  have ads: "add_days (mon 4) (weekday R - 5) = Inr (anc 4)"
    "add_days (mon 3) (weekday R - 5) = Inr (anc 3)"
    "add_days (mon 2) (weekday R - 5) = Inr (anc 2)"
    by (simp_all add: ad)
  have tas: "toordinal (anc 3) = toordinal (anc 4) + 7" "toordinal (anc 2) = toordinal (anc 3) + 7"
    by (simp_all add: ta)
  have "protocol2_sessions R =
           Inr (map (days_before Rn) [47, 46, 44, 43, 42, 40, 39, 37, 36, 35, 34], maintenance,
                map (days_before Rn) [12, 11, 9, 8, 7, 6, 5, 4, 2])
         \<and> monday_of_week Rn 4 = Inr (mon 4)
         \<and> monday_of_week Rn 3 = Inr (mon 3)
         \<and> monday_of_week Rn 2 = Inr (mon 2)
         \<and> list_all (\<lambda>m. weekday m = 0) [mon 4, mon 3, mon 2]
         \<and> toordinal (mon 4) \<le> toordinal R - 28 \<and> toordinal R - 28 \<le> toordinal (mon 4) + 6
         \<and> toordinal (mon 3) \<le> toordinal R - 21 \<and> toordinal R - 21 \<le> toordinal (mon 3) + 6
         \<and> toordinal (mon 2) \<le> toordinal R - 14 \<and> toordinal R - 14 \<le> toordinal (mon 2) + 6
         \<and> add_days (mon 4) (weekday R - 5) = Inr (anc 4)
         \<and> add_days (mon 3) (weekday R - 5) = Inr (anc 3)
         \<and> add_days (mon 2) (weekday R - 5) = Inr (anc 2)
         \<and> maintenance = [days_from (anc 4) 2, days_from (anc 4) 5, days_from (anc 3) 2,
                            days_from (anc 3) 5, days_from (anc 2) 2, days_from (anc 2) 5]
         \<and> length maintenance = 6
         \<and> map toordinal maintenance = map (\<lambda>k. toordinal R - k) [31, 28, 24, 21, 17, 14]
         \<and> toordinal (anc 3) = toordinal (anc 4) + 7 \<and> toordinal (anc 2) = toordinal (anc 3) + 7
         \<and> card (calendar_week ` set maintenance) = (if 3 \<le> weekday R then 3 else 4)"
    by (intro conjI) (fact ps mons wms tms ads ml len om tas cw)+
  then show ?thesis
    unfolding Rn_def by (intro exI)
qed

theorem protocol2_maintenance_dates_witness:
  "valid_datetime sample_race \<and> 48 \<le> toordinal sample_race \<and> weekday sample_race = 5
   \<and> map_sum id (fst \<circ> snd) (protocol2_sessions sample_race) =
        Inr [ymd 2024 7 10, ymd 2024 7 13, ymd 2024 7 17, ymd 2024 7 20, ymd 2024 7 24, ymd 2024 7 27]
   \<and> card (calendar_week ` set [ymd 2024 7 10, ymd 2024 7 13, ymd 2024 7 17, ymd 2024 7 20,
                                   ymd 2024 7 24, ymd 2024 7 27]) = 3"
proof -
  have v: "valid_datetime sample_race" by (rule sample_race_valid)
  have o: "48 \<le> toordinal sample_race" by (simp add: sample_race_valid)
  have w: "weekday sample_race = 5" by code_simp
  have p: "map_sum id (fst \<circ> snd) (protocol2_sessions sample_race) =
        Inr [ymd 2024 7 10, ymd 2024 7 13, ymd 2024 7 17, ymd 2024 7 20, ymd 2024 7 24, ymd 2024 7 27]"
    by code_simp
  from protocol2_maintenance_dates[OF v o] obtain bout1 maintenance bout2 where
    r: "protocol2_sessions sample_race = Inr (bout1, maintenance, bout2)"
    and c: "card (calendar_week ` set maintenance) = (if 3 \<le> weekday sample_race then 3 else 4)"
    by blast
  from p r have "maintenance = [ymd 2024 7 10, ymd 2024 7 13, ymd 2024 7 17, ymd 2024 7 20,
                                   ymd 2024 7 24, ymd 2024 7 27]"
    by simp
  with c w have "card (calendar_week ` set [ymd 2024 7 10, ymd 2024 7 13, ymd 2024 7 17, ymd 2024 7 20,
                                   ymd 2024 7 24, ymd 2024 7 27]) = 3"
    by simp
  with v o w p show ?thesis by blast
qed

text \<open>
  The claim as stated fails at the race date 2024-08-12, a Monday: the shift is -5 days,
  each pair is a Friday and the Monday after it, and the 6 maintenance dates fall in 4
  distinct calendar weeks, not 3.
\<close>

theorem protocol2_maintenance_counterexample:
  "valid_datetime monday_race \<and> weekday monday_race = 0
   \<and> map_sum id (fst \<circ> snd) (protocol2_sessions monday_race) =
        Inr [ymd 2024 7 12, ymd 2024 7 15, ymd 2024 7 19, ymd 2024 7 22, ymd 2024 7 26, ymd 2024 7 29]
   \<and> map weekday [ymd 2024 7 12, ymd 2024 7 15, ymd 2024 7 19, ymd 2024 7 22, ymd 2024 7 26,
                   ymd 2024 7 29] = [4, 0, 4, 0, 4, 0]
   \<and> card (calendar_week ` set [ymd 2024 7 12, ymd 2024 7 15, ymd 2024 7 19, ymd 2024 7 22,
                                   ymd 2024 7 26, ymd 2024 7 29]) = 4"
  by code_simp

section \<open>Weekday alignment\<close>







section \<open>Protocol 2 as fixed offsets from the race date\<close>

lemma protocol2_fixed_offsets_eq:
  assumes "valid_datetime R"
  shows "protocol2_fixed_offsets R =
     (if 48 \<le> toordinal R
      then Inr (map (days_before (normalise R)) [47, 46, 44, 43, 42, 40, 39, 37, 36, 35, 34],
                map (days_before (normalise R)) [31, 28, 24, 21, 17, 14],
                map (days_before (normalise R)) [12, 11, 9, 8, 7, 6, 5, 4, 2])
      else Inl OverflowError)"
proof -
  have hi: "toordinal R \<le> 3652059" using valid_datetime_ord[OF assms] by simp
  show ?thesis using hi
    by (simp add: protocol2_fixed_offsets_def Let_def sub_days_eq)
qed

text \<open>
  Claim C9. The construction of \<open>protocol2_sessions\<close> from the Monday of a week and the
  weekday offset computes fixed offsets from the race date, whatever its weekday: the
  anchor of bout 1 is \<open>R - 47\<close>, and the function as a whole agrees, on every well-formed
  race date, with the function that subtracts the fixed day counts (also where the
  dates are out of range: both raise). Where the lists exist, bout 1 is \<open>R - 47, R - 46,
  R - 44, R - 43, R - 42, R - 40, R - 39, R - 37, R - 36, R - 35, R - 34\<close> and the
  maintenance sessions are \<open>R - 31, R - 28, R - 24, R - 21, R - 17, R - 14\<close>.
\<close>

theorem protocol2_is_fixed_offsets:
  assumes "valid_datetime R"
  shows "block_start R = sub_days (normalise R) 47
       \<and> protocol2_sessions R = protocol2_fixed_offsets R
       \<and> (\<forall>bout1 maintenance bout2.
             protocol2_sessions R = Inr (bout1, maintenance, bout2) \<longrightarrow>
               map Inr bout1 = map (sub_days (normalise R)) [47, 46, 44, 43, 42, 40, 39, 37, 36, 35, 34]
             \<and> map Inr maintenance = map (sub_days (normalise R)) [31, 28, 24, 21, 17, 14]
             \<and> map toordinal bout1 = map (\<lambda>k. toordinal R - k) [47, 46, 44, 43, 42, 40, 39, 37, 36, 35, 34]
             \<and> map toordinal maintenance = map (\<lambda>k. toordinal R - k) [31, 28, 24, 21, 17, 14])"
proof -
  have hi: "toordinal R \<le> 3652059" using valid_datetime_ord[OF assms] by simp
  have a: "block_start R = sub_days (normalise R) 47"
    using hi by (simp add: block_start_eq[OF assms] sub_days_eq days_before_def)
  have b: "protocol2_sessions R = protocol2_fixed_offsets R"
    by (simp only: protocol2_sessions_eq[OF assms] protocol2_fixed_offsets_eq[OF assms])
  have c: "map Inr bout1 = map (sub_days (normalise R)) [47, 46, 44, 43, 42, 40, 39, 37, 36, 35, 34]
         \<and> map Inr maintenance = map (sub_days (normalise R)) [31, 28, 24, 21, 17, 14]
         \<and> map toordinal bout1 = map (\<lambda>k. toordinal R - k) [47, 46, 44, 43, 42, 40, 39, 37, 36, 35, 34]
         \<and> map toordinal maintenance = map (\<lambda>k. toordinal R - k) [31, 28, 24, 21, 17, 14]"
    if "protocol2_sessions R = Inr (bout1, maintenance, bout2)" for bout1 maintenance bout2
  proof -
    from that have o: "48 \<le> toordinal R"
      by (simp add: protocol2_sessions_eq[OF assms] split: if_splits)
    from that o have "bout1 = map (days_before (normalise R)) [47, 46, 44, 43, 42, 40, 39, 37, 36, 35, 34]"
      "maintenance = map (days_before (normalise R)) [31, 28, 24, 21, 17, 14]"
      by (simp_all add: protocol2_sessions_eq[OF assms])
    then show ?thesis using o hi
      by (simp add: sub_days_eq toordinal_days_before)
  qed
  show ?thesis using a b c by blast
qed

theorem protocol2_is_fixed_offsets_witness:
  "valid_datetime thursday_race
   \<and> block_start thursday_race = Inr (ymd 2024 6 22)
   \<and> sub_days (normalise thursday_race) 47 = Inr (ymd 2024 6 22)
   \<and> protocol2_fixed_offsets thursday_race =
        Inr ([ymd 2024 6 22, ymd 2024 6 23, ymd 2024 6 25, ymd 2024 6 26, ymd 2024 6 27,
              ymd 2024 6 29, ymd 2024 6 30, ymd 2024 7 2, ymd 2024 7 3, ymd 2024 7 4, ymd 2024 7 5],
             [ymd 2024 7 8, ymd 2024 7 11, ymd 2024 7 15, ymd 2024 7 18, ymd 2024 7 22, ymd 2024 7 25],
             [ymd 2024 7 27, ymd 2024 7 28, ymd 2024 7 30, ymd 2024 7 31, ymd 2024 8 1,
              ymd 2024 8 2, ymd 2024 8 3, ymd 2024 8 4, ymd 2024 8 6])
   \<and> protocol2_sessions thursday_race =
        Inr ([ymd 2024 6 22, ymd 2024 6 23, ymd 2024 6 25, ymd 2024 6 26, ymd 2024 6 27,
              ymd 2024 6 29, ymd 2024 6 30, ymd 2024 7 2, ymd 2024 7 3, ymd 2024 7 4, ymd 2024 7 5],
             [ymd 2024 7 8, ymd 2024 7 11, ymd 2024 7 15, ymd 2024 7 18, ymd 2024 7 22, ymd 2024 7 25],
             [ymd 2024 7 27, ymd 2024 7 28, ymd 2024 7 30, ymd 2024 7 31, ymd 2024 8 1,
              ymd 2024 8 2, ymd 2024 8 3, ymd 2024 8 4, ymd 2024 8 6])"
proof -
  have v: "valid_datetime thursday_race" by code_simp
  have s: "sub_days (normalise thursday_race) 47 = Inr (ymd 2024 6 22)" by code_simp
  have f: "protocol2_fixed_offsets thursday_race =
        Inr ([ymd 2024 6 22, ymd 2024 6 23, ymd 2024 6 25, ymd 2024 6 26, ymd 2024 6 27,
              ymd 2024 6 29, ymd 2024 6 30, ymd 2024 7 2, ymd 2024 7 3, ymd 2024 7 4, ymd 2024 7 5],
             [ymd 2024 7 8, ymd 2024 7 11, ymd 2024 7 15, ymd 2024 7 18, ymd 2024 7 22, ymd 2024 7 25],
             [ymd 2024 7 27, ymd 2024 7 28, ymd 2024 7 30, ymd 2024 7 31, ymd 2024 8 1,
              ymd 2024 8 2, ymd 2024 8 3, ymd 2024 8 4, ymd 2024 8 6])"
    by code_simp
  from protocol2_is_fixed_offsets[OF v] have a: "block_start thursday_race = sub_days (normalise thursday_race) 47"
    and b: "protocol2_sessions thursday_race = protocol2_fixed_offsets thursday_race"
    by blast+
  show ?thesis unfolding a b s f by (intro conjI v refl)
qed

section \<open>Disjoint category sets\<close>

lemma disjoint_by_toordinal:
  "toordinal ` A \<inter> toordinal ` B = {} \<Longrightarrow> A \<inter> B = {}"
  by auto

lemma notin_by_toordinal: "toordinal x \<notin> toordinal ` A \<Longrightarrow> x \<notin> A"
  by auto

lemma toordinal_sessions_to_set:
  "toordinal ` sessions_to_set xs = set (map toordinal xs)"
  by (simp add: sessions_to_set_def image_image)

lemma normalise_fixed_not_in:
  "normalise x \<notin> sessions_to_set xs \<Longrightarrow> x \<notin> sessions_to_set xs"
  by (auto simp add: sessions_to_set_def normalise_normalise)

lemma in_sessions_to_set: "d \<in> set xs \<Longrightarrow> normalise d \<in> sessions_to_set xs"
  by (simp add: sessions_to_set_def)

lemma only_in_own_set:
  assumes "sessions_to_set xs \<inter> sessions_to_set ys = {}"
  shows "list_all (\<lambda>d. normalise d \<in> sessions_to_set xs \<and> normalise d \<notin> sessions_to_set ys) xs"
    and "list_all (\<lambda>d. normalise d \<in> sessions_to_set ys \<and> normalise d \<notin> sessions_to_set xs) ys"
proof -
  have a: "normalise d \<notin> sessions_to_set ys" if "d \<in> set xs" for d
    using assms in_sessions_to_set[OF that] by blast
  have b: "normalise d \<notin> sessions_to_set xs" if "d \<in> set ys" for d
    using assms in_sessions_to_set[OF that] by blast
  show "list_all (\<lambda>d. normalise d \<in> sessions_to_set xs \<and> normalise d \<notin> sessions_to_set ys) xs"
    by (simp add: list_all_iff in_sessions_to_set a)
  show "list_all (\<lambda>d. normalise d \<in> sessions_to_set ys \<and> normalise d \<notin> sessions_to_set xs) ys"
    by (simp add: list_all_iff in_sessions_to_set b)
qed

text \<open>
  Claim C7. Whenever a scheduler returns its lists for a well-formed race date, the
  normalised date sets built from them are pairwise disjoint and none contains the race
  date: bout and maintenance for Protocol 1; bout 1, maintenance and bout 2 for
  Protocol 2. Every scheduled date, normalised, is a member of the set of its own
  category and of no other, so it lies in exactly one category set.
\<close>

theorem category_sets_disjoint:
  assumes "valid_datetime R"
  shows "(\<forall>bout maintenance.
            protocol1_sessions R = Inr (bout, maintenance) \<longrightarrow>
              sessions_to_set bout \<inter> sessions_to_set maintenance = {}
            \<and> normalise R \<notin> sessions_to_set bout \<union> sessions_to_set maintenance
            \<and> R \<notin> sessions_to_set bout \<union> sessions_to_set maintenance
            \<and> list_all (\<lambda>d. normalise d \<in> sessions_to_set bout
                              \<and> normalise d \<notin> sessions_to_set maintenance) bout
            \<and> list_all (\<lambda>d. normalise d \<in> sessions_to_set maintenance
                              \<and> normalise d \<notin> sessions_to_set bout) maintenance
            \<and> sessions_to_set bout \<noteq> {} \<and> sessions_to_set maintenance \<noteq> {})
       \<and> (\<forall>bout1 maintenance bout2.
            protocol2_sessions R = Inr (bout1, maintenance, bout2) \<longrightarrow>
              sessions_to_set bout1 \<inter> sessions_to_set maintenance = {}
            \<and> sessions_to_set bout1 \<inter> sessions_to_set bout2 = {}
            \<and> sessions_to_set maintenance \<inter> sessions_to_set bout2 = {}
            \<and> normalise R \<notin> sessions_to_set bout1 \<union> sessions_to_set maintenance \<union> sessions_to_set bout2
            \<and> R \<notin> sessions_to_set bout1 \<union> sessions_to_set maintenance \<union> sessions_to_set bout2
            \<and> list_all (\<lambda>d. normalise d \<in> sessions_to_set bout1
                              \<and> normalise d \<notin> sessions_to_set maintenance
                              \<and> normalise d \<notin> sessions_to_set bout2) bout1
            \<and> list_all (\<lambda>d. normalise d \<in> sessions_to_set maintenance
                              \<and> normalise d \<notin> sessions_to_set bout1
                              \<and> normalise d \<notin> sessions_to_set bout2) maintenance
            \<and> list_all (\<lambda>d. normalise d \<in> sessions_to_set bout2
                              \<and> normalise d \<notin> sessions_to_set bout1
                              \<and> normalise d \<notin> sessions_to_set maintenance) bout2
            \<and> sessions_to_set bout1 \<noteq> {} \<and> sessions_to_set maintenance \<noteq> {}
            \<and> sessions_to_set bout2 \<noteq> {})"
proof (intro conjI allI impI)
  fix bout maintenance
  assume r: "protocol1_sessions R = Inr (bout, maintenance)"
  then have o: "20 \<le> toordinal R"
    by (simp add: protocol1_sessions_eq[OF assms] split: if_splits)
  from r o have ob: "map toordinal bout = map (\<lambda>k. toordinal R - k) [19, 18, 17, 16, 15, 14, 13, 12, 11, 10]"
    and om: "map toordinal maintenance = map (\<lambda>k. toordinal R - k) [7, 5]"
    by (auto simp add: protocol1_sessions_eq[OF assms] toordinal_days_before)
  show d: "sessions_to_set bout \<inter> sessions_to_set maintenance = {}"
    by (rule disjoint_by_toordinal) (simp add: toordinal_sessions_to_set ob om)
  show n: "normalise R \<notin> sessions_to_set bout \<union> sessions_to_set maintenance"
    by (rule notin_by_toordinal) (simp add: image_Un toordinal_sessions_to_set ob om)
  show "R \<notin> sessions_to_set bout \<union> sessions_to_set maintenance"
    using n normalise_fixed_not_in[of R bout] normalise_fixed_not_in[of R maintenance] by blast
  show "list_all (\<lambda>d. normalise d \<in> sessions_to_set bout
                        \<and> normalise d \<notin> sessions_to_set maintenance) bout"
    using d by (rule only_in_own_set(1))
  show "list_all (\<lambda>d. normalise d \<in> sessions_to_set maintenance
                        \<and> normalise d \<notin> sessions_to_set bout) maintenance"
    using d by (rule only_in_own_set(2))
  from ob have "bout \<noteq> []" by auto
  then show "sessions_to_set bout \<noteq> {}" by (simp add: sessions_to_set_def)
  from om have "maintenance \<noteq> []" by auto
  then show "sessions_to_set maintenance \<noteq> {}" by (simp add: sessions_to_set_def)
next
  fix bout1 maintenance bout2
  assume r: "protocol2_sessions R = Inr (bout1, maintenance, bout2)"
  then have o: "48 \<le> toordinal R"
    by (simp add: protocol2_sessions_eq[OF assms] split: if_splits)
  from r o have o1: "map toordinal bout1 = map (\<lambda>k. toordinal R - k) [47, 46, 44, 43, 42, 40, 39, 37, 36, 35, 34]"
    and om: "map toordinal maintenance = map (\<lambda>k. toordinal R - k) [31, 28, 24, 21, 17, 14]"
    and o2: "map toordinal bout2 = map (\<lambda>k. toordinal R - k) [12, 11, 9, 8, 7, 6, 5, 4, 2]"
    by (auto simp add: protocol2_sessions_eq[OF assms] toordinal_days_before)
  show d1: "sessions_to_set bout1 \<inter> sessions_to_set maintenance = {}"
    by (rule disjoint_by_toordinal) (simp add: toordinal_sessions_to_set o1 om)
  show d2: "sessions_to_set bout1 \<inter> sessions_to_set bout2 = {}"
    by (rule disjoint_by_toordinal) (simp add: toordinal_sessions_to_set o1 o2)
  show d3: "sessions_to_set maintenance \<inter> sessions_to_set bout2 = {}"
    by (rule disjoint_by_toordinal) (simp add: toordinal_sessions_to_set om o2)
  show n: "normalise R \<notin> sessions_to_set bout1 \<union> sessions_to_set maintenance \<union> sessions_to_set bout2"
    by (rule notin_by_toordinal) (simp add: image_Un toordinal_sessions_to_set o1 om o2)
  show "R \<notin> sessions_to_set bout1 \<union> sessions_to_set maintenance \<union> sessions_to_set bout2"
    using n normalise_fixed_not_in[of R bout1] normalise_fixed_not_in[of R maintenance]
      normalise_fixed_not_in[of R bout2] by blast
  show "list_all (\<lambda>d. normalise d \<in> sessions_to_set bout1
                        \<and> normalise d \<notin> sessions_to_set maintenance
                        \<and> normalise d \<notin> sessions_to_set bout2) bout1"
    using only_in_own_set(1)[OF d1] only_in_own_set(1)[OF d2] by (simp add: list_all_iff)
  show "list_all (\<lambda>d. normalise d \<in> sessions_to_set maintenance
                        \<and> normalise d \<notin> sessions_to_set bout1
                        \<and> normalise d \<notin> sessions_to_set bout2) maintenance"
    using only_in_own_set(2)[OF d1] only_in_own_set(1)[OF d3] by (simp add: list_all_iff)
  show "list_all (\<lambda>d. normalise d \<in> sessions_to_set bout2
                        \<and> normalise d \<notin> sessions_to_set bout1
                        \<and> normalise d \<notin> sessions_to_set maintenance) bout2"
    using only_in_own_set(2)[OF d2] only_in_own_set(2)[OF d3] by (simp add: list_all_iff)
  from o1 have "bout1 \<noteq> []" by auto
  then show "sessions_to_set bout1 \<noteq> {}" by (simp add: sessions_to_set_def)
  from om have "maintenance \<noteq> []" by auto
  then show "sessions_to_set maintenance \<noteq> {}" by (simp add: sessions_to_set_def)
  from o2 have "bout2 \<noteq> []" by auto
  then show "sessions_to_set bout2 \<noteq> {}" by (simp add: sessions_to_set_def)
qed

theorem category_sets_disjoint_witness:
  "valid_datetime sample_race
   \<and> protocol1_sessions sample_race =
       Inr ([ymd 2024 7 22, ymd 2024 7 23, ymd 2024 7 24, ymd 2024 7 25, ymd 2024 7 26,
             ymd 2024 7 27, ymd 2024 7 28, ymd 2024 7 29, ymd 2024 7 30, ymd 2024 7 31],
            [ymd 2024 8 3, ymd 2024 8 5])
   \<and> sessions_to_set [ymd 2024 7 22, ymd 2024 7 23, ymd 2024 7 24, ymd 2024 7 25, ymd 2024 7 26,
             ymd 2024 7 27, ymd 2024 7 28, ymd 2024 7 29, ymd 2024 7 30, ymd 2024 7 31]
         \<inter> sessions_to_set [ymd 2024 8 3, ymd 2024 8 5] = {}
   \<and> list_all (\<lambda>d. normalise d \<in> sessions_to_set [ymd 2024 8 3, ymd 2024 8 5]
                     \<and> normalise d \<notin> sessions_to_set [ymd 2024 7 22, ymd 2024 7 23, ymd 2024 7 24,
                           ymd 2024 7 25, ymd 2024 7 26, ymd 2024 7 27, ymd 2024 7 28, ymd 2024 7 29,
                           ymd 2024 7 30, ymd 2024 7 31])
        [ymd 2024 8 3, ymd 2024 8 5]
   \<and> ymd 2024 8 3 \<in> sessions_to_set [ymd 2024 8 3, ymd 2024 8 5]
   \<and> protocol2_sessions sample_race =
       Inr ([ymd 2024 6 24, ymd 2024 6 25, ymd 2024 6 27, ymd 2024 6 28, ymd 2024 6 29,
             ymd 2024 7 1, ymd 2024 7 2, ymd 2024 7 4, ymd 2024 7 5, ymd 2024 7 6, ymd 2024 7 7],
            [ymd 2024 7 10, ymd 2024 7 13, ymd 2024 7 17, ymd 2024 7 20, ymd 2024 7 24, ymd 2024 7 27],
            [ymd 2024 7 29, ymd 2024 7 30, ymd 2024 8 1, ymd 2024 8 2, ymd 2024 8 3,
             ymd 2024 8 4, ymd 2024 8 5, ymd 2024 8 6, ymd 2024 8 8])
   \<and> sessions_to_set [ymd 2024 7 10, ymd 2024 7 13, ymd 2024 7 17, ymd 2024 7 20, ymd 2024 7 24,
             ymd 2024 7 27]
         \<inter> sessions_to_set [ymd 2024 7 29, ymd 2024 7 30, ymd 2024 8 1, ymd 2024 8 2, ymd 2024 8 3,
             ymd 2024 8 4, ymd 2024 8 5, ymd 2024 8 6, ymd 2024 8 8] = {}
   \<and> sessions_to_set [ymd 2024 7 10, ymd 2024 7 13, ymd 2024 7 17, ymd 2024 7 20, ymd 2024 7 24,
             ymd 2024 7 27] \<noteq> {}
   \<and> sample_race \<notin> sessions_to_set [ymd 2024 6 24, ymd 2024 6 25, ymd 2024 6 27, ymd 2024 6 28,
             ymd 2024 6 29, ymd 2024 7 1, ymd 2024 7 2, ymd 2024 7 4, ymd 2024 7 5, ymd 2024 7 6,
             ymd 2024 7 7]
         \<union> sessions_to_set [ymd 2024 7 10, ymd 2024 7 13, ymd 2024 7 17, ymd 2024 7 20,
             ymd 2024 7 24, ymd 2024 7 27]
         \<union> sessions_to_set [ymd 2024 7 29, ymd 2024 7 30, ymd 2024 8 1, ymd 2024 8 2, ymd 2024 8 3,
             ymd 2024 8 4, ymd 2024 8 5, ymd 2024 8 6, ymd 2024 8 8]"
proof -
  have v: "valid_datetime sample_race" by (rule sample_race_valid)
  have e1: "protocol1_sessions sample_race =
       Inr ([ymd 2024 7 22, ymd 2024 7 23, ymd 2024 7 24, ymd 2024 7 25, ymd 2024 7 26,
             ymd 2024 7 27, ymd 2024 7 28, ymd 2024 7 29, ymd 2024 7 30, ymd 2024 7 31],
            [ymd 2024 8 3, ymd 2024 8 5])"
    by code_simp
  have e2: "protocol2_sessions sample_race =
       Inr ([ymd 2024 6 24, ymd 2024 6 25, ymd 2024 6 27, ymd 2024 6 28, ymd 2024 6 29,
             ymd 2024 7 1, ymd 2024 7 2, ymd 2024 7 4, ymd 2024 7 5, ymd 2024 7 6, ymd 2024 7 7],
            [ymd 2024 7 10, ymd 2024 7 13, ymd 2024 7 17, ymd 2024 7 20, ymd 2024 7 24, ymd 2024 7 27],
            [ymd 2024 7 29, ymd 2024 7 30, ymd 2024 8 1, ymd 2024 8 2, ymd 2024 8 3,
             ymd 2024 8 4, ymd 2024 8 5, ymd 2024 8 6, ymd 2024 8 8])"
    by code_simp
  note c = category_sets_disjoint[OF v]
  from c e1 have p1:
    "sessions_to_set [ymd 2024 7 22, ymd 2024 7 23, ymd 2024 7 24, ymd 2024 7 25, ymd 2024 7 26,
             ymd 2024 7 27, ymd 2024 7 28, ymd 2024 7 29, ymd 2024 7 30, ymd 2024 7 31]
         \<inter> sessions_to_set [ymd 2024 8 3, ymd 2024 8 5] = {}"
    and p2: "list_all (\<lambda>d. normalise d \<in> sessions_to_set [ymd 2024 8 3, ymd 2024 8 5]
                     \<and> normalise d \<notin> sessions_to_set [ymd 2024 7 22, ymd 2024 7 23, ymd 2024 7 24,
                           ymd 2024 7 25, ymd 2024 7 26, ymd 2024 7 27, ymd 2024 7 28, ymd 2024 7 29,
                           ymd 2024 7 30, ymd 2024 7 31])
        [ymd 2024 8 3, ymd 2024 8 5]"
    by blast+
  from p2 have p3: "ymd 2024 8 3 \<in> sessions_to_set [ymd 2024 8 3, ymd 2024 8 5]"
    by (simp add: normalise_def ymd_def)
  from c e2 have q1:
    "sessions_to_set [ymd 2024 7 10, ymd 2024 7 13, ymd 2024 7 17, ymd 2024 7 20, ymd 2024 7 24,
             ymd 2024 7 27]
         \<inter> sessions_to_set [ymd 2024 7 29, ymd 2024 7 30, ymd 2024 8 1, ymd 2024 8 2, ymd 2024 8 3,
             ymd 2024 8 4, ymd 2024 8 5, ymd 2024 8 6, ymd 2024 8 8] = {}"
    and q2: "sessions_to_set [ymd 2024 7 10, ymd 2024 7 13, ymd 2024 7 17, ymd 2024 7 20, ymd 2024 7 24,
             ymd 2024 7 27] \<noteq> {}"
    and q3: "sample_race \<notin> sessions_to_set [ymd 2024 6 24, ymd 2024 6 25, ymd 2024 6 27, ymd 2024 6 28,
             ymd 2024 6 29, ymd 2024 7 1, ymd 2024 7 2, ymd 2024 7 4, ymd 2024 7 5, ymd 2024 7 6,
             ymd 2024 7 7]
         \<union> sessions_to_set [ymd 2024 7 10, ymd 2024 7 13, ymd 2024 7 17, ymd 2024 7 20,
             ymd 2024 7 24, ymd 2024 7 27]
         \<union> sessions_to_set [ymd 2024 7 29, ymd 2024 7 30, ymd 2024 8 1, ymd 2024 8 2, ymd 2024 8 3,
             ymd 2024 8 4, ymd 2024 8 5, ymd 2024 8 6, ymd 2024 8 8]"
    by blast+
  show ?thesis by (intro conjI v e1 e2 p1 p2 p3 q1 q2 q3)
qed

section \<open>Calendar grids\<close>

lemma days_in_month_le: "1 \<le> m \<Longrightarrow> m \<le> 12 \<Longrightarrow> 28 \<le> days_in_month y m \<and> days_in_month y m \<le> 31"
proof -
  assume "1 \<le> m" "m \<le> 12"
  then have "m \<in> {1,2,3,4,5,6,7,8,9,10,11,12}" by (rule int_1_12)
  then show ?thesis
    by (elim insertE emptyE) (simp_all add: days_in_month_def DAYS_IN_MONTH_def)
qed

lemma valid_date_fits:
  assumes "valid_date y m d"
  shows "fits_c_int y \<and> fits_c_int m \<and> fits_c_int d"
proof -
  from assms have v: "1 \<le> y" "y \<le> 9999" "1 \<le> m" "m \<le> 12" "1 \<le> d" "d \<le> days_in_month y m"
    by (simp_all add: valid_date_def MINYEAR_def MAXYEAR_def)
  from days_in_month_le[OF v(3,4), of y] have "days_in_month y m \<le> 31" by simp
  with v show ?thesis unfolding fits_c_int_def by linarith
qed

lemma datetime_ymd_eq:
  "datetime_ymd y m d =
     (if valid_date y m d then Inr (ymd y m d)
      else if fits_c_int y \<and> fits_c_int m \<and> fits_c_int d then Inl ValueError
      else Inl OverflowError)"
  using valid_date_fits[of y m d] by (auto simp add: datetime_ymd_def ymd_def)

lemma normalise_ymd [simp]: "normalise (ymd y m d) = ymd y m d"
  by (simp add: normalise_def ymd_def)


text \<open>What the loops have appended when they return.\<close>

lemma week_loop_cells:
  assumes "week_loop ct y m week row = Inr row'" and "cell \<in> set row'"
  shows "cell \<in> set row \<or> cell = (None, None)
       \<or> (\<exists>dayn \<in> set week. dayn \<noteq> 0 \<and> valid_date y m dayn \<and> cell = (Some dayn, ct (ymd y m dayn)))"
  using assms
proof (induction week arbitrary: row)
  case Nil
  then show ?case by simp
next
  case (Cons dayn week)
  show ?case
  proof (cases "dayn = 0")
    case True
    with Cons.prems have "week_loop ct y m week (row @ [(None, None)]) = Inr row'" by simp
    from Cons.IH[OF this Cons.prems(2)] show ?thesis by auto
  next
    case False
    with Cons.prems(1) have v: "valid_date y m dayn"
      by (simp add: datetime_ymd_eq split: if_splits)
    with False Cons.prems(1)
    have "week_loop ct y m week (row @ [(Some dayn, ct (ymd y m dayn))]) = Inr row'"
      by (simp add: datetime_ymd_eq)
    from Cons.IH[OF this Cons.prems(2)] show ?thesis using False v by auto
  qed
qed

lemma weeks_loop_rows:
  assumes "weeks_loop ct y m weeks result = Inr grid" and "row \<in> set grid"
  shows "row \<in> set result \<or> (\<exists>week \<in> set weeks. week_loop ct y m week [] = Inr row)"
  using assms
proof (induction weeks arbitrary: result)
  case Nil
  then show ?case by simp
next
  case (Cons week weeks)
  from Cons.prems(1) obtain r where r: "week_loop ct y m week [] = Inr r"
    and rest: "weeks_loop ct y m weeks (result @ [r]) = Inr grid"
    by (cases "week_loop ct y m week []") simp_all
  from Cons.IH[OF rest Cons.prems(2)] show ?case using r by auto
qed

lemma grid_cells:
  assumes "weeks_loop ct y m weeks [] = Inr grid" and "row \<in> set grid"
    and "(Some dayn, c) \<in> set row"
  shows "valid_date y m dayn \<and> c = ct (ymd y m dayn)"
proof -
  from weeks_loop_rows[OF assms(1,2)] obtain week where "week_loop ct y m week [] = Inr row"
    by auto
  from week_loop_cells[OF this assms(3)] show ?thesis by auto
qed

subsection \<open>Grids of well-formed months\<close>

lemma concat_chunks7: "concat (chunks7 xs) = xs"
  by (induction xs rule: chunks7.induct) simp_all

lemma week_loop_total:
  assumes "\<And>dayn. dayn \<in> set week \<Longrightarrow> dayn = 0 \<or> valid_date y m dayn"
  shows "week_loop ct y m week row = Inr (row @ map (grid_cell ct y m) week)"
  using assms
proof (induction week arbitrary: row)
  case Nil
  then show ?case by simp
next
  case (Cons dayn week)
  have v: "dayn = 0 \<or> valid_date y m dayn" using Cons.prems by simp
  have ih: "week_loop ct y m week r = Inr (r @ map (grid_cell ct y m) week)" for r
    using Cons.prems by (intro Cons.IH) simp
  show ?case using v by (auto simp add: ih grid_cell_def datetime_ymd_eq)
qed

lemma weeks_loop_total:
  assumes "\<And>week dayn. week \<in> set weeks \<Longrightarrow> dayn \<in> set week \<Longrightarrow> dayn = 0 \<or> valid_date y m dayn"
  shows "weeks_loop ct y m weeks result = Inr (result @ map (map (grid_cell ct y m)) weeks)"
  using assms
proof (induction weeks arbitrary: result)
  case Nil
  then show ?case by simp
next
  case (Cons week weeks)
  have "week_loop ct y m week [] = Inr ([] @ map (grid_cell ct y m) week)"
    by (rule week_loop_total) (use Cons.prems in auto)
  then have w: "week_loop ct y m week [] = Inr (map (grid_cell ct y m) week)" by simp
  have ih: "weeks_loop ct y m weeks r = Inr (r @ map (map (grid_cell ct y m)) weeks)" for r
  proof (rule Cons.IH)
    fix week' dayn
    assume "week' \<in> set weeks" "dayn \<in> set week'"
    then show "dayn = 0 \<or> valid_date y m dayn" using Cons.prems[of week' dayn] by simp
  qed
  show ?case by (simp add: w ih)
qed

lemma isleap_is_leap: "isleap y = is_leap y"
  by (simp add: isleap_def is_leap_def)

lemma mdays_days_in_month:
  assumes "1 \<le> m" "m \<le> 12"
  shows "mdays ! nat m + (if m = 2 \<and> isleap y then 1 else 0) = days_in_month y m"
proof -
  have "m \<in> {1,2,3,4,5,6,7,8,9,10,11,12}" using assms by (rule int_1_12)
  then show ?thesis
    by (elim insertE emptyE)
       (simp_all add: mdays_def days_in_month_def DAYS_IN_MONTH_def isleap_is_leap)
qed

lemma valid_date_first:
  assumes "MINYEAR \<le> y" "y \<le> MAXYEAR" "1 \<le> m" "m \<le> 12"
  shows "valid_date y m 1"
  using assms days_in_month_le[OF assms(3,4), of y] by (simp add: valid_date_def)

lemma monthcalendar_eq:
  assumes "MINYEAR \<le> y" "y \<le> MAXYEAR" "1 \<le> m" "m \<le> 12"
  shows "monthcalendar y m =
     Inr (chunks7 (replicate (nat (weekday (ymd y m 1) mod 7)) 0 @ [1..days_in_month y m]
                   @ replicate (nat ((- weekday (ymd y m 1) - days_in_month y m) mod 7)) 0))"
  using assms valid_date_first[OF assms]
  by (simp add: monthcalendar_def itermonthdays_def monthrange_def calendar_weekday_def
      datetime_ymd_eq mdays_days_in_month Let_def)

lemma monthcalendar_days:
  assumes "MINYEAR \<le> y" "y \<le> MAXYEAR" "1 \<le> m" "m \<le> 12"
  shows "\<exists>weeks. monthcalendar y m = Inr weeks
    \<and> (\<forall>week \<in> set weeks. \<forall>dayn \<in> set week. dayn = 0 \<or> valid_date y m dayn)
    \<and> (\<forall>d. valid_date y m d \<longrightarrow> (\<exists>week \<in> set weeks. d \<in> set week))"
proof -
  define days where "days = replicate (nat (weekday (ymd y m 1) mod 7)) 0 @ [1..days_in_month y m]
                   @ replicate (nat ((- weekday (ymd y m 1) - days_in_month y m) mod 7)) (0::int)"
  have mc: "monthcalendar y m = Inr (chunks7 days)"
    unfolding days_def by (rule monthcalendar_eq[OF assms])
  have sd: "set (concat (chunks7 days)) = set days" by (simp only: concat_chunks7)
  have a: "dayn = 0 \<or> valid_date y m dayn" if "week \<in> set (chunks7 days)" "dayn \<in> set week" for week dayn
  proof -
    from that have "dayn \<in> set (concat (chunks7 days))" by auto
    then have "dayn \<in> set days" by (simp only: sd)
    then have "dayn = 0 \<or> (1 \<le> dayn \<and> dayn \<le> days_in_month y m)"
      by (auto simp add: days_def)
    then show ?thesis using assms by (auto simp add: valid_date_def)
  qed
  have b: "\<exists>week \<in> set (chunks7 days). d \<in> set week" if "valid_date y m d" for d
  proof -
    from that have "d \<in> set days" by (simp add: days_def valid_date_def)
    then have "d \<in> set (concat (chunks7 days))" by (simp only: sd)
    then show ?thesis by auto
  qed
  show ?thesis using mc a b by blast
qed

lemma grid_has_day:
  assumes "valid_date y m d"
    and g: "\<And>weeks. monthcalendar y m = Inr weeks \<Longrightarrow> builder = weeks_loop ct y m weeks []"
  shows "\<exists>grid. builder = Inr grid \<and> (\<exists>row \<in> set grid. (Some d, ct (ymd y m d)) \<in> set row)"
proof -
  from assms(1) have r: "MINYEAR \<le> y" "y \<le> MAXYEAR" "1 \<le> m" "m \<le> 12" and d0: "d \<noteq> 0"
    by (auto simp add: valid_date_def)
  from monthcalendar_days[OF r] obtain weeks where mc: "monthcalendar y m = Inr weeks"
    and a: "\<And>week dayn. week \<in> set weeks \<Longrightarrow> dayn \<in> set week \<Longrightarrow> dayn = 0 \<or> valid_date y m dayn"
    and b: "\<And>d. valid_date y m d \<Longrightarrow> \<exists>week \<in> set weeks. d \<in> set week"
    by metis
  have "weeks_loop ct y m weeks [] = Inr ([] @ map (map (grid_cell ct y m)) weeks)"
    by (rule weeks_loop_total) (use a in blast)
  then have wl: "weeks_loop ct y m weeks [] = Inr (map (map (grid_cell ct y m)) weeks)" by simp
  from b[OF assms(1)] obtain week where w: "week \<in> set weeks" "d \<in> set week" by blast
  have "(Some d, ct (ymd y m d)) \<in> set (map (grid_cell ct y m) week)"
    using w(2) d0 by (force simp add: grid_cell_def)
  moreover have "map (grid_cell ct y m) week \<in> set (map (map (grid_cell ct y m)) weeks)"
    using w(1) by simp
  ultimately show ?thesis using g[OF mc] wl by blast
qed

subsection \<open>Months and grids of a schedule\<close>

lemma year_month_normalise [simp]:
  "year (normalise d) = year d" "month (normalise d) = month d" "day (normalise d) = day d"
  by (simp_all add: normalise_def)



subsection \<open>Categories of the cells\<close>

lemma grid_empty_cells:
  assumes "weeks_loop ct y m weeks [] = Inr grid" and "row \<in> set grid"
    and "(None, c) \<in> set row"
  shows "c = None"
proof -
  from weeks_loop_rows[OF assms(1,2)] obtain week where "week_loop ct y m week [] = Inr row"
    by auto
  from week_loop_cells[OF this assms(3)] show ?thesis by auto
qed

lemma grid_has_day_cell:
  assumes "valid_date y m d"
    and g: "\<And>weeks. monthcalendar y m = Inr weeks \<Longrightarrow> builder = weeks_loop ct y m weeks []"
  shows "\<exists>grid row c. builder = Inr grid \<and> row \<in> set grid \<and> (Some d, c) \<in> set row"
  using grid_has_day[OF assms] by blast

text \<open>
  Claim C6. In a grid built for a year and month, every in-month day cell
  \<open>(Some dayn, c)\<close> holds a day of that month, and its category \<open>c\<close> follows the fixed
  precedence: \<open>race\<close> if the day is the race date, even when it also lies in a session
  set; otherwise the primary bout (\<open>bout\<close> for Protocol 1, \<open>bout1\<close> for Protocol 2) if it
  is in that set; otherwise \<open>maintenance\<close>; otherwise, for Protocol 2, \<open>bout2\<close>;
  otherwise no category. A padding cell has no category, and every day of a well-formed
  month has a cell in the grid, which is built for every such month.
\<close>

theorem grid_cell_precedence:
  "(month_calendar_data_protocol1 y m bout_set maint_set race_date = Inr grid
      \<and> row \<in> set grid \<and> (Some dayn, c) \<in> set row
    \<longrightarrow> valid_date y m dayn
      \<and> c = (if race_date \<noteq> None \<and> ymd y m dayn = normalise (the race_date) then Some ''race''
             else if ymd y m dayn \<in> bout_set then Some ''bout''
             else if ymd y m dayn \<in> maint_set then Some ''maintenance''
             else None))
   \<and> (month_calendar_data_protocol2 y m bout1_set maint_set bout2_set race_date = Inr grid'
      \<and> row' \<in> set grid' \<and> (Some dayn', c') \<in> set row'
    \<longrightarrow> valid_date y m dayn'
      \<and> c' = (if race_date \<noteq> None \<and> ymd y m dayn' = normalise (the race_date) then Some ''race''
              else if ymd y m dayn' \<in> bout1_set then Some ''bout1''
              else if ymd y m dayn' \<in> maint_set then Some ''maintenance''
              else if ymd y m dayn' \<in> bout2_set then Some ''bout2''
              else None))
   \<and> ((month_calendar_data_protocol1 y m bout_set maint_set race_date = Inr grid0
        \<or> month_calendar_data_protocol2 y m bout1_set maint_set bout2_set race_date = Inr grid0)
      \<and> row0 \<in> set grid0 \<and> (None, c0) \<in> set row0
    \<longrightarrow> c0 = None)
   \<and> (valid_date y m d
    \<longrightarrow> (\<exists>grid row c. month_calendar_data_protocol1 y m bout_set maint_set race_date = Inr grid
                       \<and> row \<in> set grid \<and> (Some d, c) \<in> set row)
      \<and> (\<exists>grid row c. month_calendar_data_protocol2 y m bout1_set maint_set bout2_set race_date
                         = Inr grid
                       \<and> row \<in> set grid \<and> (Some d, c) \<in> set row))"
proof -
  define ct1 where "ct1 = cell_type1 bout_set maint_set (map_option normalise race_date)"
  define ct2 where "ct2 = cell_type2 bout1_set maint_set bout2_set (map_option normalise race_date)"
  have b1: "month_calendar_data_protocol1 y m bout_set maint_set race_date = weeks_loop ct1 y m weeks []"
    if "monthcalendar y m = Inr weeks" for weeks
    using that by (simp add: month_calendar_data_protocol1_def ct1_def)
  have b2: "month_calendar_data_protocol2 y m bout1_set maint_set bout2_set race_date
              = weeks_loop ct2 y m weeks []"
    if "monthcalendar y m = Inr weeks" for weeks
    using that by (simp add: month_calendar_data_protocol2_def ct2_def)
  have w1: "\<exists>weeks. weeks_loop ct1 y m weeks [] = Inr g"
    if "month_calendar_data_protocol1 y m bout_set maint_set race_date = Inr g" for g
    using that by (cases "monthcalendar y m") (auto simp add: month_calendar_data_protocol1_def ct1_def)
  have w2: "\<exists>weeks. weeks_loop ct2 y m weeks [] = Inr g"
    if "month_calendar_data_protocol2 y m bout1_set maint_set bout2_set race_date = Inr g" for g
    using that by (cases "monthcalendar y m") (auto simp add: month_calendar_data_protocol2_def ct2_def)
  have p1: "valid_date y m dayn
      \<and> c = (if race_date \<noteq> None \<and> ymd y m dayn = normalise (the race_date) then Some ''race''
             else if ymd y m dayn \<in> bout_set then Some ''bout''
             else if ymd y m dayn \<in> maint_set then Some ''maintenance''
             else None)"
    if g: "month_calendar_data_protocol1 y m bout_set maint_set race_date = Inr grid"
      and r: "row \<in> set grid" and c: "(Some dayn, c) \<in> set row"
  proof -
    from w1[OF g] obtain weeks where "weeks_loop ct1 y m weeks [] = Inr grid" by blast
    from grid_cells[OF this r c] show ?thesis
      by (cases race_date) (simp_all add: ct1_def cell_type1_def race_matches_def)
  qed
  have p2: "valid_date y m dayn'
      \<and> c' = (if race_date \<noteq> None \<and> ymd y m dayn' = normalise (the race_date) then Some ''race''
              else if ymd y m dayn' \<in> bout1_set then Some ''bout1''
              else if ymd y m dayn' \<in> maint_set then Some ''maintenance''
              else if ymd y m dayn' \<in> bout2_set then Some ''bout2''
              else None)"
    if g: "month_calendar_data_protocol2 y m bout1_set maint_set bout2_set race_date = Inr grid'"
      and r: "row' \<in> set grid'" and c: "(Some dayn', c') \<in> set row'"
  proof -
    from w2[OF g] obtain weeks where "weeks_loop ct2 y m weeks [] = Inr grid'" by blast
    from grid_cells[OF this r c] show ?thesis
      by (cases race_date) (simp_all add: ct2_def cell_type2_def race_matches_def)
  qed
  have p3: "c0 = None"
    if g: "month_calendar_data_protocol1 y m bout_set maint_set race_date = Inr grid0
           \<or> month_calendar_data_protocol2 y m bout1_set maint_set bout2_set race_date = Inr grid0"
      and r: "row0 \<in> set grid0" and c: "(None, c0) \<in> set row0"
    using g
  proof
    assume "month_calendar_data_protocol1 y m bout_set maint_set race_date = Inr grid0"
    from w1[OF this] obtain weeks where "weeks_loop ct1 y m weeks [] = Inr grid0" by blast
    from grid_empty_cells[OF this r c] show ?thesis .
  next
    assume "month_calendar_data_protocol2 y m bout1_set maint_set bout2_set race_date = Inr grid0"
    from w2[OF this] obtain weeks where "weeks_loop ct2 y m weeks [] = Inr grid0" by blast
    from grid_empty_cells[OF this r c] show ?thesis .
  qed
  have p4: "(\<exists>grid row c. month_calendar_data_protocol1 y m bout_set maint_set race_date = Inr grid
                       \<and> row \<in> set grid \<and> (Some d, c) \<in> set row)
      \<and> (\<exists>grid row c. month_calendar_data_protocol2 y m bout1_set maint_set bout2_set race_date
                         = Inr grid
                       \<and> row \<in> set grid \<and> (Some d, c) \<in> set row)"
    if v: "valid_date y m d"
    using grid_has_day_cell[OF v, of "month_calendar_data_protocol1 y m bout_set maint_set race_date" ct1]
      grid_has_day_cell[OF v, of "month_calendar_data_protocol2 y m bout1_set maint_set bout2_set race_date" ct2]
      b1 b2 by blast
  show ?thesis using p1 p2 p3 p4 by blast
qed

theorem grid_cell_precedence_witness:
  "month_calendar_data_protocol1 2024 8
       {ymd 2024 8 3, ymd 2024 8 5, ymd 2024 8 10} {ymd 2024 8 5, ymd 2024 8 7, ymd 2024 8 10}
       (Some sample_race) =
     Inr [[(None, None), (None, None), (None, None), (Some 1, None),
           (Some 2, None), (Some 3, Some ''bout''), (Some 4, None)],
          [(Some 5, Some ''bout''), (Some 6, None), (Some 7, Some ''maintenance''),
           (Some 8, None), (Some 9, None), (Some 10, Some ''race''), (Some 11, None)],
          [(Some 12, None), (Some 13, None), (Some 14, None), (Some 15, None),
           (Some 16, None), (Some 17, None), (Some 18, None)],
          [(Some 19, None), (Some 20, None), (Some 21, None), (Some 22, None),
           (Some 23, None), (Some 24, None), (Some 25, None)],
          [(Some 26, None), (Some 27, None), (Some 28, None), (Some 29, None),
           (Some 30, None), (Some 31, None), (None, None)]]
   \<and> month_calendar_data_protocol2 2024 8
       {ymd 2024 8 3, ymd 2024 8 10} {ymd 2024 8 5, ymd 2024 8 7, ymd 2024 8 10}
       {ymd 2024 8 5, ymd 2024 8 6} (Some sample_race) =
     Inr [[(None, None), (None, None), (None, None), (Some 1, None),
           (Some 2, None), (Some 3, Some ''bout1''), (Some 4, None)],
          [(Some 5, Some ''maintenance''), (Some 6, Some ''bout2''), (Some 7, Some ''maintenance''),
           (Some 8, None), (Some 9, None), (Some 10, Some ''race''), (Some 11, None)],
          [(Some 12, None), (Some 13, None), (Some 14, None), (Some 15, None),
           (Some 16, None), (Some 17, None), (Some 18, None)],
          [(Some 19, None), (Some 20, None), (Some 21, None), (Some 22, None),
           (Some 23, None), (Some 24, None), (Some 25, None)],
          [(Some 26, None), (Some 27, None), (Some 28, None), (Some 29, None),
           (Some 30, None), (Some 31, None), (None, None)]]
   \<and> ymd 2024 8 10 = normalise sample_race
   \<and> ymd 2024 8 10 \<in> {ymd 2024 8 3, ymd 2024 8 5, ymd 2024 8 10}
   \<and> ymd 2024 8 5 \<in> {ymd 2024 8 5, ymd 2024 8 7, ymd 2024 8 10}
   \<and> ymd 2024 8 5 \<in> {ymd 2024 8 5, ymd 2024 8 6}
   \<and> valid_date 2024 8 10 \<and> valid_date 2024 8 5 \<and> valid_date 2024 8 31"
proof -
  let ?B = "{ymd 2024 8 3, ymd 2024 8 5, ymd 2024 8 10}"
  let ?M = "{ymd 2024 8 5, ymd 2024 8 7, ymd 2024 8 10}"
  let ?B1 = "{ymd 2024 8 3, ymd 2024 8 10}"
  let ?B2 = "{ymd 2024 8 5, ymd 2024 8 6}"
  let ?row0 = "[(None, None), (None, None), (None, None), (Some 1, None),
           (Some 2, None), (Some 3, Some ''bout''), (Some (4::int), None)]"
  let ?row1 = "[(Some 5, Some ''bout''), (Some 6, None), (Some 7, Some ''maintenance''),
           (Some 8, None), (Some 9, None), (Some 10, Some ''race''), (Some (11::int), None)]"
  let ?row2 = "[(Some 5, Some ''maintenance''), (Some 6, Some ''bout2''), (Some 7, Some ''maintenance''),
           (Some 8, None), (Some 9, None), (Some 10, Some ''race''), (Some (11::int), None)]"
  let ?G1 = "[?row0,
          ?row1,
          [(Some 12, None), (Some 13, None), (Some 14, None), (Some 15, None),
           (Some 16, None), (Some 17, None), (Some 18, None)],
          [(Some 19, None), (Some 20, None), (Some 21, None), (Some 22, None),
           (Some 23, None), (Some 24, None), (Some 25, None)],
          [(Some 26, None), (Some 27, None), (Some 28, None), (Some 29, None),
           (Some 30, None), (Some 31, None), (None, None)]]"
  let ?G2 = "[[(None, None), (None, None), (None, None), (Some 1, None),
           (Some 2, None), (Some 3, Some ''bout1''), (Some 4, None)],
          ?row2,
          [(Some 12, None), (Some 13, None), (Some 14, None), (Some 15, None),
           (Some 16, None), (Some 17, None), (Some 18, None)],
          [(Some 19, None), (Some 20, None), (Some 21, None), (Some 22, None),
           (Some 23, None), (Some 24, None), (Some 25, None)],
          [(Some 26, None), (Some 27, None), (Some 28, None), (Some 29, None),
           (Some 30, None), (Some 31, None), (None, None)]]"
  have g1: "month_calendar_data_protocol1 2024 8 ?B ?M (Some sample_race) = Inr ?G1"
    by code_simp
  have g2: "month_calendar_data_protocol2 2024 8 ?B1 ?M ?B2 (Some sample_race) = Inr ?G2"
    by code_simp
  have r: "ymd 2024 8 10 = normalise sample_race" by (simp add: sample_race_def)
  have v31: "valid_date 2024 8 31" by code_simp
  have h1: "month_calendar_data_protocol1 2024 8 ?B ?M (Some sample_race) = Inr ?G1
      \<and> ?row1 \<in> set ?G1 \<and> (Some 10, Some ''race'') \<in> set ?row1"
    using g1 by simp
  have h2: "month_calendar_data_protocol2 2024 8 ?B1 ?M ?B2 (Some sample_race) = Inr ?G2
      \<and> ?row2 \<in> set ?G2 \<and> (Some 5, Some ''maintenance'') \<in> set ?row2"
    using g2 by simp
  have h3: "(month_calendar_data_protocol1 2024 8 ?B ?M (Some sample_race) = Inr ?G1
        \<or> month_calendar_data_protocol2 2024 8 ?B1 ?M ?B2 (Some sample_race) = Inr ?G1)
      \<and> ?row0 \<in> set ?G1 \<and> (None, None) \<in> set ?row0"
    using g1 by simp
  from grid_cell_precedence[where y = 2024 and m = 8 and bout_set = ?B and maint_set = ?M
      and race_date = "Some sample_race" and grid = ?G1 and row = ?row1 and dayn = 10
      and c = "Some ''race''" and ?bout1_set = ?B1 and ?bout2_set = ?B2 and grid' = ?G2
      and row' = ?row2 and dayn' = 5 and c' = "Some ''maintenance''"
      and ?grid0.0 = ?G1 and ?row0.0 = ?row0 and ?c0.0 = None and d = 31] h1 h2 h3 v31
  have v: "valid_date 2024 8 10" "valid_date 2024 8 5" by blast+
  show ?thesis by (intro conjI g1 g2 r v v31) simp_all
qed

subsection \<open>The grids of a returned schedule\<close>







section \<open>Normalisation\<close>

text \<open>
  Claim C10. Building the normalised set is idempotent: a list that enumerates
  \<open>sessions_to_set xs\<close> is mapped to the same set again, and a list of dates whose time
  of day is already zero is mapped to the set of its own elements. Two datetimes have
  the same normal form exactly when they agree on year, month and day, whatever their
  time of day.
\<close>

theorem sessions_to_set_idempotent:
  "(set ys = sessions_to_set xs \<longrightarrow> sessions_to_set ys = sessions_to_set xs)
   \<and> ((\<forall>d \<in> set zs. normalise d = d) \<longrightarrow> sessions_to_set zs = set zs)
   \<and> (normalise a = normalise b \<longleftrightarrow> year a = year b \<and> month a = month b \<and> day a = day b)"
proof (intro conjI impI)
  assume "set ys = sessions_to_set xs"
  then show "sessions_to_set ys = sessions_to_set xs"
    by (simp add: sessions_to_set_def image_image normalise_normalise)
next
  assume "\<forall>d \<in> set zs. normalise d = d"
  then show "sessions_to_set zs = set zs"
    by (simp add: sessions_to_set_def)
next
  show "normalise a = normalise b \<longleftrightarrow> year a = year b \<and> month a = month b \<and> day a = day b"
    by (rule normalise_eq_iff)
qed

theorem sessions_to_set_idempotent_witness:
  "set [normalise (sample_race\<lparr>hour := 9\<rparr>)] = sessions_to_set [sample_race\<lparr>hour := 9\<rparr>]
   \<and> sessions_to_set [normalise (sample_race\<lparr>hour := 9\<rparr>)] = sessions_to_set [sample_race\<lparr>hour := 9\<rparr>]
   \<and> normalise sample_race = sample_race
   \<and> sessions_to_set [sample_race] = set [sample_race]
   \<and> normalise (sample_race\<lparr>hour := 9\<rparr>) = normalise (sample_race\<lparr>minute := 30\<rparr>)"
  using sessions_to_set_idempotent
    [of "[normalise (sample_race\<lparr>hour := 9\<rparr>)]" "[sample_race\<lparr>hour := 9\<rparr>]" "[sample_race]"
        "sample_race\<lparr>hour := 9\<rparr>" "sample_race\<lparr>minute := 30\<rparr>"]
  by (simp add: sessions_to_set_def normalise_def sample_race_def ymd_def)

end
